theory Spec2Isabelle
  imports Main "HOL-Library.Word"
begin

unbundle bit_operations_syntax

chapter \<open>Static-site scraper and runtime stripper\<close>

text \<open>
  A shallow embedding of \<^verbatim>\<open>tools/scrape_site_static.py\<close> and
  \<^verbatim>\<open>tools/strip_wix_runtime.py\<close>.

  Conventions of the embedding.
  \<^item> A Python \<^verbatim>\<open>str\<close> is a \<^typ>\<open>string\<close>; a \<^typ>\<open>char\<close> stands for the code
    point of the same number, so the strings of the model are the Python strings over
    U+0000..U+00FF. Whitespace, case mapping and UTF-8 encoding are those of Python on
    that range.
  \<^item> A \<^verbatim>\<open>pathlib.Path\<close> is the list of its components below the file-system
    root (a relative path is taken as already joined to the working directory).
  \<^item> An exception is a value of \<open>exn\<close>; a function that can raise returns
    \<open>exn + 'a\<close>, and a function with effects takes the world and returns the new one.
  \<^item> The HTTP session is a function from the requests made so far and the URL asked
    for to a response; every call of \<^verbatim>\<open>session.get\<close> is logged in the world.
\<close>

section \<open>Exceptions\<close>

datatype exn =
    ValueError
  | AttributeError
  | FileExistsError
  | FileNotFoundError
  | NotADirectoryError
  | IsADirectoryError
  | RequestException
  | HTTPError

section \<open>Python strings\<close>

definition startswith :: "string \<Rightarrow> string \<Rightarrow> bool" where
  "startswith s p = (take (length p) s = p)"

text \<open>\<^verbatim>\<open>sub in s\<close>\<close>

fun str_in :: "string \<Rightarrow> string \<Rightarrow> bool" where
  "str_in sub [] = (sub = [])"
| "str_in sub (c # cs) = (startswith (c # cs) sub \<or> str_in sub cs)"

text \<open>\<^verbatim>\<open>str.isspace\<close> on U+0000..U+00FF: TAB..CR, FS..US, SPACE, NEL and NBSP.\<close>

definition py_isspace :: "char \<Rightarrow> bool" where
  "py_isspace c = (let n = of_char c :: nat in
     (9 \<le> n \<and> n \<le> 13) \<or> (28 \<le> n \<and> n \<le> 32) \<or> n = 133 \<or> n = 160)"

definition lstrip_ws :: "string \<Rightarrow> string" where
  "lstrip_ws s = dropWhile py_isspace s"

definition rstrip_ws :: "string \<Rightarrow> string" where
  "rstrip_ws s = rev (dropWhile py_isspace (rev s))"

text \<open>\<^verbatim>\<open>s.strip()\<close>\<close>

definition py_strip :: "string \<Rightarrow> string" where
  "py_strip s = rstrip_ws (lstrip_ws s)"

text \<open>\<^verbatim>\<open>s.lstrip(cs)\<close>, \<^verbatim>\<open>s.rstrip(cs)\<close> and \<^verbatim>\<open>s.strip(cs)\<close> for a set of characters\<close>

definition lstrip_chars :: "string \<Rightarrow> string \<Rightarrow> string" where
  "lstrip_chars cs s = dropWhile (\<lambda>c. c \<in> set cs) s"

definition rstrip_chars :: "string \<Rightarrow> string \<Rightarrow> string" where
  "rstrip_chars cs s = rev (dropWhile (\<lambda>c. c \<in> set cs) (rev s))"

definition strip_chars :: "string \<Rightarrow> string \<Rightarrow> string" where
  "strip_chars cs s = rstrip_chars cs (lstrip_chars cs s)"

text \<open>
  \<^verbatim>\<open>s.replace(old, new)\<close>: the occurrences of \<open>old\<close> are found from the left and do
  not overlap. With an empty \<open>old\<close>, \<open>new\<close> is put before every character and at the end.
\<close>

function py_replace :: "string \<Rightarrow> string \<Rightarrow> string \<Rightarrow> string" where
  "py_replace old new s =
     (if old = [] then new @ concat (map (\<lambda>c. c # new) s)
      else if s = [] then []
      else if startswith s old then new @ py_replace old new (drop (length old) s)
      else hd s # py_replace old new (tl s))"
  by pat_completeness auto
termination
  by (relation "measure (\<lambda>(old, new, s). length s)") auto

declare py_replace.simps [simp del]

text \<open>\<^verbatim>\<open>c.lower()\<close> on U+0000..U+00FF: A..Z and the Latin-1 capitals but the
  multiplication sign.\<close>

definition py_lower_char :: "char \<Rightarrow> char" where
  "py_lower_char c = (let n = of_char c :: nat in
     if (65 \<le> n \<and> n \<le> 90) \<or> (192 \<le> n \<and> n \<le> 222 \<and> n \<noteq> 215)
     then char_of (n + 32) else c)"

definition py_lower :: "string \<Rightarrow> string" where
  "py_lower s = map py_lower_char s"

text \<open>\<^verbatim>\<open>s.find(c)\<close> for a character, as an option; \<^verbatim>\<open>s.split(c, 1)\<close> at the first
  occurrence.\<close>

fun find_char :: "char \<Rightarrow> string \<Rightarrow> nat option" where
  "find_char c [] = None"
| "find_char c (x # xs) = (if x = c then Some 0 else map_option Suc (find_char c xs))"

definition split1 :: "char \<Rightarrow> string \<Rightarrow> string \<times> string" where
  "split1 c s = (case find_char c s of None \<Rightarrow> (s, []) | Some i \<Rightarrow> (take i s, drop (Suc i) s))"

text \<open>\<^verbatim>\<open>s.split(c)\<close>\<close>

fun py_split :: "char \<Rightarrow> string \<Rightarrow> string list" where
  "py_split c [] = [[]]"
| "py_split c (x # xs) =
     (if x = c then [] # py_split c xs
      else (case py_split c xs of [] \<Rightarrow> [[x]] | w # ws \<Rightarrow> (x # w) # ws))"

text \<open>\<^verbatim>\<open>sep.join(xs)\<close>\<close>

fun py_join :: "string \<Rightarrow> string list \<Rightarrow> string" where
  "py_join sep [] = []"
| "py_join sep [x] = x"
| "py_join sep (x # y # ys) = x @ sep @ py_join sep (y # ys)"

section \<open>SHA-256\<close>

text \<open>\<^verbatim>\<open>hashlib.sha256\<close>, after FIPS 180-4, on 32-bit words.\<close>

text \<open>The round constants (the first 32 bits of the fractional parts of the cube
  roots of the first 64 primes) and the initial hash value, in decimal.\<close>

definition sha_K :: "32 word list" where
  "sha_K = [
   1116352408, 1899447441, 3049323471, 3921009573, 961987163, 1508970993, 2453635748, 2870763221,
   3624381080, 310598401, 607225278, 1426881987, 1925078388, 2162078206, 2614888103, 3248222580,
   3835390401, 4022224774, 264347078, 604807628, 770255983, 1249150122, 1555081692, 1996064986,
   2554220882, 2821834349, 2952996808, 3210313671, 3336571891, 3584528711, 113926993, 338241895,
   666307205, 773529912, 1294757372, 1396182291, 1695183700, 1986661051, 2177026350, 2456956037,
   2730485921, 2820302411, 3259730800, 3345764771, 3516065817, 3600352804, 4094571909, 275423344,
   430227734, 506948616, 659060556, 883997877, 958139571, 1322822218, 1537002063, 1747873779,
   1955562222, 2024104815, 2227730452, 2361852424, 2428436474, 2756734187, 3204031479, 3329325298]"

definition sha_H0 :: "32 word list" where
  "sha_H0 = [1779033703, 3144134277, 1013904242, 2773480762,
             1359893119, 2600822924, 528734635, 1541459225]"

text \<open>ROTR of FIPS 180-4: \<open>(x >> n) OR (x << 32 - n)\<close>.\<close>

definition rotr :: "nat \<Rightarrow> 32 word \<Rightarrow> 32 word" where
  "rotr n w = drop_bit n w OR push_bit (32 - n) w"

definition ssig0 :: "32 word \<Rightarrow> 32 word" where
  "ssig0 x = rotr 7 x XOR rotr 18 x XOR drop_bit 3 x"

definition ssig1 :: "32 word \<Rightarrow> 32 word" where
  "ssig1 x = rotr 17 x XOR rotr 19 x XOR drop_bit 10 x"

definition bsig0 :: "32 word \<Rightarrow> 32 word" where
  "bsig0 x = rotr 2 x XOR rotr 13 x XOR rotr 22 x"

definition bsig1 :: "32 word \<Rightarrow> 32 word" where
  "bsig1 x = rotr 6 x XOR rotr 11 x XOR rotr 25 x"

definition ch :: "32 word \<Rightarrow> 32 word \<Rightarrow> 32 word \<Rightarrow> 32 word" where
  "ch x y z = (x AND y) XOR (NOT x AND z)"

definition maj :: "32 word \<Rightarrow> 32 word \<Rightarrow> 32 word \<Rightarrow> 32 word" where
  "maj x y z = (x AND y) XOR (x AND z) XOR (y AND z)"

text \<open>Padding: the byte 0x80, zero bytes up to 56 modulo 64, and the length in bits as
  eight bytes, most significant first.\<close>

function pad_zeros :: "nat list \<Rightarrow> nat list" where
  "pad_zeros bs = (if length bs mod 64 = 56 then bs else pad_zeros (bs @ [0]))"
  by pat_completeness auto
termination
  by (relation "measure (\<lambda>bs. let r = length bs mod 64 in if r \<le> 56 then 56 - r else 120 - r)")
     (auto simp: mod_Suc Let_def)

declare pad_zeros.simps [simp del]

definition be_bytes8 :: "nat \<Rightarrow> nat list" where
  "be_bytes8 n = map (\<lambda>k. (n div 256 ^ k) mod 256) [7, 6, 5, 4, 3, 2, 1, 0]"

definition sha_pad :: "nat list \<Rightarrow> nat list" where
  "sha_pad bs = pad_zeros (bs @ [128]) @ be_bytes8 (8 * length bs)"

fun be_words :: "nat list \<Rightarrow> 32 word list" where
  "be_words (a # b # c # d # bs) =
     of_nat (((a * 256 + b) * 256 + c) * 256 + d) # be_words bs"
| "be_words bs = []"

text \<open>
  One round: the working variables and the sixteen schedule words from the current
  one on. The next schedule word is
  \<open>W\<^bsub>t+16\<^esub> = ssig1 W\<^bsub>t+14\<^esub> + W\<^bsub>t+9\<^esub> + ssig0 W\<^bsub>t+1\<^esub> + W\<^bsub>t\<^esub>\<close>.
\<close>

fun sha_vars :: "32 word list \<Rightarrow> 32 word \<Rightarrow> 32 word \<Rightarrow> 32 word list" where
  "sha_vars [a, b, c, d, e, f, g, h] k w =
     (let t1 = h + bsig1 e + ch e f g + k + w;
          t2 = bsig0 a + maj a b c
      in [t1 + t2, a, b, c, d + t1, e, f, g])"
| "sha_vars s k w = s"

definition sha_round :: "32 word list \<times> 32 word list \<Rightarrow> 32 word \<Rightarrow> 32 word list \<times> 32 word list" where
  "sha_round sw k =
     (case sw of (s, ws) \<Rightarrow>
        (sha_vars s k (ws ! 0),
         tl ws @ [ssig1 (ws ! 14) + ws ! 9 + ssig0 (ws ! 1) + ws ! 0]))"

definition sha_block :: "32 word list \<Rightarrow> 32 word list \<Rightarrow> 32 word list" where
  "sha_block hs block = map2 (+) hs (fst (foldl sha_round (hs, block) sha_K))"

function sha_blocks :: "32 word list \<Rightarrow> 32 word list \<Rightarrow> 32 word list" where
  "sha_blocks hs ws =
     (if ws = [] then hs else sha_blocks (sha_block hs (take 16 ws)) (drop 16 ws))"
  by pat_completeness auto
termination
  by (relation "measure (\<lambda>(hs, ws). length ws)") auto

declare sha_blocks.simps [simp del]

definition hex_digit :: "nat \<Rightarrow> char" where
  "hex_digit n = (''0123456789abcdef'' ! (n mod 16))"

definition hex_word :: "32 word \<Rightarrow> string" where
  "hex_word w = map (\<lambda>k. hex_digit (unat (drop_bit k w))) [28, 24, 20, 16, 12, 8, 4, 0]"

text \<open>\<^verbatim>\<open>s.encode("utf-8")\<close> for code points below 256.\<close>

definition utf8 :: "string \<Rightarrow> nat list" where
  "utf8 s = concat (map (\<lambda>c. let n = of_char c :: nat in
                           if n < 128 then [n] else [192 + n div 64, 128 + n mod 64]) s)"

text \<open>\<^verbatim>\<open>hashlib.sha256(s.encode("utf-8")).hexdigest()\<close>\<close>

definition sha256_hex :: "string \<Rightarrow> string" where
  "sha256_hex s = concat (map hex_word (sha_blocks sha_H0 (be_words (sha_pad (utf8 s)))))"


section \<open>The file system\<close>

type_synonym path = "string list"

datatype fsnode = File string | Dir "string \<Rightarrow> fsnode option"

text \<open>The node at a path without \<^verbatim>\<open>..\<close>, from a node.\<close>

fun lookup :: "fsnode \<Rightarrow> path \<Rightarrow> fsnode option" where
  "lookup n [] = Some n"
| "lookup (File b) (c # cs) = None"
| "lookup (Dir m) (c # cs) = (case m c of None \<Rightarrow> None | Some n \<Rightarrow> lookup n cs)"

text \<open>Replacing the node at a path whose parent is a directory (a missing parent
  leaves the tree as it is).\<close>

fun put :: "fsnode \<Rightarrow> path \<Rightarrow> fsnode \<Rightarrow> fsnode" where
  "put n [] x = x"
| "put (File b) (c # cs) x = File b"
| "put (Dir m) [c] x = Dir (m(c \<mapsto> x))"
| "put (Dir m) (c # c' # cs) x =
     (case m c of None \<Rightarrow> Dir m | Some n \<Rightarrow> Dir (m(c \<mapsto> put n (c' # cs) x)))"

text \<open>
  Path resolution as the operating system does it (no symbolic links): the components
  are followed from the root, each one but the last must name a directory, and
  \<^verbatim>\<open>..\<close> goes to the parent of the directory reached (the root is its own parent).
  The result is the path of the entry without \<^verbatim>\<open>..\<close>.
\<close>

fun realpath_from :: "fsnode \<Rightarrow> path \<Rightarrow> path \<Rightarrow> exn + path" where
  "realpath_from root cur [] = Inr cur"
| "realpath_from root cur (c # cs) =
     (case lookup root cur of
        Some (Dir m) \<Rightarrow>
          (if c = ''..'' then realpath_from root (butlast cur) cs
           else (case m c of
                   None \<Rightarrow> Inl FileNotFoundError
                 | Some n \<Rightarrow> realpath_from root (cur @ [c]) cs))
      | _ \<Rightarrow> Inl NotADirectoryError)"

definition realpath :: "fsnode \<Rightarrow> path \<Rightarrow> exn + path" where
  "realpath root p = realpath_from root [] p"

text \<open>\<^verbatim>\<open>os.stat\<close>: the entry a path names, if any.\<close>

definition stat :: "fsnode \<Rightarrow> path \<Rightarrow> fsnode option" where
  "stat root p = (case realpath root p of Inl e \<Rightarrow> None | Inr q \<Rightarrow> lookup root q)"

definition path_exists :: "fsnode \<Rightarrow> path \<Rightarrow> bool" where
  "path_exists root p = (stat root p \<noteq> None)"

definition is_dir :: "fsnode \<Rightarrow> path \<Rightarrow> bool" where
  "is_dir root p = (case stat root p of Some (Dir m) \<Rightarrow> True | _ \<Rightarrow> False)"

text \<open>\<^verbatim>\<open>os.mkdir\<close>\<close>

definition os_mkdir :: "fsnode \<Rightarrow> path \<Rightarrow> exn + fsnode" where
  "os_mkdir root p =
     (if p = [] then Inl FileExistsError
      else (case realpath root (butlast p) of
              Inl e \<Rightarrow> Inl e
            | Inr d \<Rightarrow>
                (case lookup root d of
                   Some (Dir m) \<Rightarrow>
                     (if last p = ''..'' \<or> m (last p) \<noteq> None then Inl FileExistsError
                      else Inr (put root (d @ [last p]) (Dir Map.empty)))
                 | _ \<Rightarrow> Inl NotADirectoryError)))"

text \<open>
  \<^verbatim>\<open>Path.mkdir(parents=True, exist_ok=True)\<close>: \<^verbatim>\<open>os.mkdir\<close> first; on
  \<^verbatim>\<open>FileNotFoundError\<close> the parent is made and \<^verbatim>\<open>os.mkdir\<close> tried again (where an
  existing directory is accepted); any other \<^verbatim>\<open>OSError\<close> is accepted when the path
  is a directory.
\<close>

function mkdir_parents :: "fsnode \<Rightarrow> path \<Rightarrow> exn + fsnode" where
  "mkdir_parents root p =
     (case os_mkdir root p of
        Inr r \<Rightarrow> Inr r
      | Inl e \<Rightarrow>
          (if e = FileNotFoundError then
             (if p = [] then Inl e
              else (case mkdir_parents root (butlast p) of
                      Inl e' \<Rightarrow> Inl e'
                    | Inr r1 \<Rightarrow>
                        (case os_mkdir r1 p of
                           Inr r2 \<Rightarrow> Inr r2
                         | Inl e2 \<Rightarrow>
                             (if e2 \<noteq> FileNotFoundError \<and> is_dir r1 p then Inr r1
                              else Inl e2))))
           else if is_dir root p then Inr root
           else Inl e))"
  by pat_completeness auto
termination
  by (relation "measure (\<lambda>(root, p). length p)") auto

declare mkdir_parents.simps [simp del]

text \<open>\<^verbatim>\<open>Path.write_bytes\<close>: the file is created or truncated.\<close>

definition write_bytes :: "fsnode \<Rightarrow> path \<Rightarrow> string \<Rightarrow> exn + fsnode" where
  "write_bytes root p b =
     (if p = [] then Inl IsADirectoryError
      else (case realpath root (butlast p) of
              Inl e \<Rightarrow> Inl e
            | Inr d \<Rightarrow>
                (case lookup root d of
                   Some (Dir m) \<Rightarrow>
                     (if last p = ''..'' then Inl IsADirectoryError
                      else (case m (last p) of
                              Some (Dir m') \<Rightarrow> Inl IsADirectoryError
                            | _ \<Rightarrow> Inr (put root (d @ [last p]) (File b))))
                 | _ \<Rightarrow> Inl NotADirectoryError)))"

section \<open>The world: files and the HTTP session\<close>

datatype response = Failed | Response nat string

text \<open>
  What the model takes from outside: the answer of the HTTP session to a request (given
  the requests made before), the size the operating system reports for a directory, and
  the library's validation of a bracketed host in a URL (\<^verbatim>\<open>_check_bracketed_netloc\<close>,
  which asks \<^verbatim>\<open>ipaddress\<close>).
\<close>

record env =
  http_get :: "string list \<Rightarrow> string \<Rightarrow> response"
  dir_st_size :: nat
  valid_ip_literal :: "string \<Rightarrow> bool"

record world =
  fs :: "string \<Rightarrow> fsnode option"
  requests :: "string list"

definition st_size :: "env \<Rightarrow> fsnode \<Rightarrow> nat" where
  "st_size E n = (case n of File b \<Rightarrow> length b | Dir m \<Rightarrow> dir_st_size E)"

text \<open>\<^verbatim>\<open>_ensure_parent\<close>\<close>

definition ensure_parent :: "path \<Rightarrow> fsnode \<Rightarrow> exn + fsnode" where
  "ensure_parent p root = mkdir_parents root (butlast p)"


text \<open>The entries of the root directory.\<close>

definition entries :: "fsnode \<Rightarrow> (string \<Rightarrow> fsnode option)" where
  "entries n = (case n of Dir m \<Rightarrow> m | File b \<Rightarrow> Map.empty)"

text \<open>
  \<^verbatim>\<open>_download_binary\<close>: the parent directory is made; a destination that exists with
  a size above zero is kept and nothing is fetched; otherwise the URL is fetched,
  \<^verbatim>\<open>raise_for_status\<close> raises on a status from 400 to 599, and the body is written.
\<close>

definition download_binary :: "env \<Rightarrow> string \<Rightarrow> path \<Rightarrow> world \<Rightarrow> (exn + bool) \<times> world" where
  "download_binary E url out_path w =
     (case ensure_parent out_path (Dir (fs w)) of
        Inl e \<Rightarrow> (Inl e, w)
      | Inr r1 \<Rightarrow>
          (let w1 = w\<lparr>fs := entries r1\<rparr> in
           if (case stat r1 out_path of Some n \<Rightarrow> 0 < st_size E n | None \<Rightarrow> False)
           then (Inr False, w1)
           else
             (let w2 = w1\<lparr>requests := requests w1 @ [url]\<rparr> in
              case http_get E (requests w1) url of
                Failed \<Rightarrow> (Inl RequestException, w2)
              | Response status content \<Rightarrow>
                  (if 400 \<le> status \<and> status < 600 then (Inl HTTPError, w2)
                   else (case write_bytes r1 out_path content of
                           Inl e \<Rightarrow> (Inl e, w2)
                         | Inr r2 \<Rightarrow> (Inr True, w2\<lparr>fs := entries r2\<rparr>))))))"

text \<open>A server that answers every request with status 200 and the given body, and
  the world with an empty file system and no request made.\<close>

definition serving :: "string \<Rightarrow> env" where
  "serving body = \<lparr>http_get = (\<lambda>log url. Response 200 body), dir_st_size = 4096,
                    valid_ip_literal = (\<lambda>host. True)\<rparr>"

definition empty_world :: world where
  "empty_world = \<lparr>fs = Map.empty, requests = []\<rparr>"

section \<open>The document tree\<close>

text \<open>
  A parsed document (a \<^verbatim>\<open>BeautifulSoup\<close> object) is the list of its top-level nodes.
  An element has its tag name, its attributes in document order and its children; the
  strings of the tree are text, comments and the document type. The value of an
  attribute is kept as written; of a multi-valued attribute (\<^verbatim>\<open>rel\<close>) the library
  presents the list of its whitespace-separated tokens.
\<close>

datatype node =
    Element string "(string \<times> string) list" "node list"
  | Text string
  | Comment string
  | Doctype string

type_synonym soup = "node list"

text \<open>\<^verbatim>\<open>tag.get(name)\<close> and \<^verbatim>\<open>tag[name] = value\<close>\<close>

definition get_attr :: "(string \<times> string) list \<Rightarrow> string \<Rightarrow> string option" where
  "get_attr attrs name = map_of attrs name"

fun set_attr :: "(string \<times> string) list \<Rightarrow> string \<Rightarrow> string \<Rightarrow> (string \<times> string) list" where
  "set_attr [] name v = [(name, v)]"
| "set_attr ((k, x) # attrs) name v =
     (if k = name then (k, v) # attrs else (k, x) # set_attr attrs name v)"

text \<open>The tokens of a multi-valued attribute: the maximal runs of characters that are
  not whitespace.\<close>

fun tokens :: "string \<Rightarrow> string list" where
  "tokens [] = []"
| "tokens (c # cs) =
     (if py_isspace c then tokens cs
      else (case tokens cs of
              [] \<Rightarrow> [[c]]
            | w # ws \<Rightarrow>
                (if cs \<noteq> [] \<and> \<not> py_isspace (hd cs) then (c # w) # ws else [c] # w # ws)))"

definition get_list :: "(string \<times> string) list \<Rightarrow> string \<Rightarrow> string list option" where
  "get_list attrs name = map_option tokens (get_attr attrs name)"

text \<open>\<^verbatim>\<open>tag.string\<close>: the only child when it is a string, the \<^verbatim>\<open>.string\<close> of the only
  child when it is an element, and \<^verbatim>\<open>None\<close> otherwise.\<close>

fun node_string :: "node \<Rightarrow> string option" where
  "node_string (Element t a cs) = (case cs of [c] \<Rightarrow> node_string c | _ \<Rightarrow> None)"
| "node_string (Text s) = Some s"
| "node_string (Comment s) = Some s"
| "node_string (Doctype s) = Some s"

text \<open>\<^verbatim>\<open>soup.find(name)\<close>: the first element of that name in document order.\<close>

fun find_first :: "string \<Rightarrow> node list \<Rightarrow> node option" where
  "find_first nm [] = None"
| "find_first nm (Element t a cs # ns) =
     (if t = nm then Some (Element t a cs)
      else (case find_first nm cs of Some e \<Rightarrow> Some e | None \<Rightarrow> find_first nm ns))"
| "find_first nm (Text s # ns) = find_first nm ns"
| "find_first nm (Comment s # ns) = find_first nm ns"
| "find_first nm (Doctype s # ns) = find_first nm ns"

text \<open>Editing the first element of a name in place: it is replaced by the nodes
  \<open>f\<close> gives (none for \<^verbatim>\<open>decompose\<close>). Without such an element the result is \<open>None\<close>.\<close>

fun edit_first :: "string \<Rightarrow> (node \<Rightarrow> node list) \<Rightarrow> node list \<Rightarrow> node list option" where
  "edit_first nm f [] = None"
| "edit_first nm f (Element t a cs # ns) =
     (if t = nm then Some (f (Element t a cs) @ ns)
      else (case edit_first nm f cs of
              Some cs' \<Rightarrow> Some (Element t a cs' # ns)
            | None \<Rightarrow> map_option ((#) (Element t a cs)) (edit_first nm f ns)))"
| "edit_first nm f (Text s # ns) = map_option ((#) (Text s)) (edit_first nm f ns)"
| "edit_first nm f (Comment s # ns) = map_option ((#) (Comment s)) (edit_first nm f ns)"
| "edit_first nm f (Doctype s # ns) = map_option ((#) (Doctype s)) (edit_first nm f ns)"

text \<open>
  \<^verbatim>\<open>for x in list(soup.find_all(...)): if P(x): x.decompose()\<close>: the elements are
  visited in document order, and an element that is removed goes with all below it.
\<close>

fun remove_all :: "(node \<Rightarrow> bool) \<Rightarrow> node list \<Rightarrow> node list" where
  "remove_all P [] = []"
| "remove_all P (Element t a cs # ns) =
     (if P (Element t a cs) then remove_all P ns
      else Element t a (remove_all P cs) # remove_all P ns)"
| "remove_all P (Text s # ns) = Text s # remove_all P ns"
| "remove_all P (Comment s # ns) = Comment s # remove_all P ns"
| "remove_all P (Doctype s # ns) = Doctype s # remove_all P ns"

text \<open>\<^verbatim>\<open>for el in list(soup.find_all(name)): el.unwrap()\<close>: every element of the name
  is replaced by its children.\<close>

fun unwrap_all :: "string \<Rightarrow> node list \<Rightarrow> node list" where
  "unwrap_all nm [] = []"
| "unwrap_all nm (Element t a cs # ns) =
     (if t = nm then unwrap_all nm cs @ unwrap_all nm ns
      else Element t a (unwrap_all nm cs) # unwrap_all nm ns)"
| "unwrap_all nm (Text s # ns) = Text s # unwrap_all nm ns"
| "unwrap_all nm (Comment s # ns) = Comment s # unwrap_all nm ns"
| "unwrap_all nm (Doctype s # ns) = Doctype s # unwrap_all nm ns"

section \<open>The runtime stripper\<close>

text \<open>\<^verbatim>\<open>REMOTE_RE = ^(https?:)?//\<close> and
  \<^verbatim>\<open>WIX_HOST_RE = (wixstatic\.com|parastorage\.com|wix\.com)\<close>, both ignoring case.\<close>

definition REMOTE_RE_match :: "string \<Rightarrow> bool" where
  "REMOTE_RE_match s =
     (startswith s ''//'' \<or> startswith (py_lower s) ''http://'' \<or> startswith (py_lower s) ''https://'')"

definition WIX_HOST_RE_search :: "string \<Rightarrow> bool" where
  "WIX_HOST_RE_search s =
     (str_in ''wixstatic.com'' (py_lower s) \<or> str_in ''parastorage.com'' (py_lower s)
      \<or> str_in ''wix.com'' (py_lower s))"

definition is_remote_url :: "string option \<Rightarrow> bool" where
  "is_remote_url url = (case url of None \<Rightarrow> False | Some u \<Rightarrow> u \<noteq> [] \<and> REMOTE_RE_match u)"

definition is_wix_remote :: "string option \<Rightarrow> bool" where
  "is_wix_remote url = (case url of None \<Rightarrow> False | Some u \<Rightarrow> u \<noteq> [] \<and> WIX_HOST_RE_search u)"

text \<open>The scripts that are dropped: all but structured data.\<close>

fun drop_script :: "node \<Rightarrow> bool" where
  "drop_script (Element t a cs) =
     (t = ''script'' \<and>
      py_lower (case get_attr a ''type'' of None \<Rightarrow> [] | Some v \<Rightarrow> v) \<noteq> ''application/ld+json'')"
| "drop_script n = False"

text \<open>The links that are dropped: remote or vendor-hosted, and preloads.\<close>

fun drop_link :: "node \<Rightarrow> bool" where
  "drop_link (Element t a cs) =
     (t = ''link'' \<and>
      (let rel = (case get_list a ''rel'' of None \<Rightarrow> [] | Some r \<Rightarrow> r);
           href = get_attr a ''href'';
           rel_set = set (map py_lower rel)
       in is_remote_url href \<or> is_wix_remote href
          \<or> ''preload'' \<in> rel_set \<or> ''prefetch'' \<in> rel_set \<or> ''modulepreload'' \<in> rel_set))"
| "drop_link n = False"

text \<open>The style blocks that are dropped: those loaded from a remote or vendor URL, and
  those whose text names a vendor host and has no \<^verbatim>\<open>@font-face\<close>.\<close>

definition remote_data :: "(string \<times> string) list \<Rightarrow> bool" where
  "remote_data a =
     (let data_url = get_attr a ''data-url'';
          data_href = get_attr a ''data-href''
      in is_remote_url data_url \<or> is_wix_remote data_url
         \<or> is_remote_url data_href \<or> is_wix_remote data_href)"

text \<open>\<^verbatim>\<open>style.string or ""\<close>\<close>

definition style_text :: "node \<Rightarrow> string" where
  "style_text n = (case node_string n of None \<Rightarrow> [] | Some s \<Rightarrow> s)"

fun drop_style :: "node \<Rightarrow> bool" where
  "drop_style (Element t a cs) =
     (t = ''style'' \<and>
      (if remote_data a then True
       else (let txt = style_text (Element t a cs)
             in WIX_HOST_RE_search txt \<and> \<not> str_in ''@font-face'' txt)))"
| "drop_style n = False"

definition custom_elements :: "string list" where
  "custom_elements = [''wix-dropdown-menu'', ''wix-video'', ''wix-bg-image'', ''wix-iframe'']"

definition marker :: node where
  "marker = Comment '' Stripped Wix runtime for static hosting ''"

text \<open>The steps of \<^verbatim>\<open>strip_html\<close> on the tree, in the order of the source.\<close>

definition remove_base :: "soup \<Rightarrow> soup" where
  "remove_base s = (case edit_first ''base'' (\<lambda>n. []) s of None \<Rightarrow> s | Some s' \<Rightarrow> s')"

definition unwrap_custom :: "soup \<Rightarrow> soup" where
  "unwrap_custom s = foldl (\<lambda>s nm. unwrap_all nm s) s custom_elements"

fun with_lang :: "node \<Rightarrow> node list" where
  "with_lang (Element t a cs) = [Element t (set_attr a ''lang'' ''en'') cs]"
| "with_lang n = [n]"

definition ensure_lang :: "soup \<Rightarrow> soup" where
  "ensure_lang s =
     (case find_first ''html'' s of
        Some (Element t a cs) \<Rightarrow>
          (if get_attr a ''lang'' = None \<or> get_attr a ''lang'' = Some []
           then (case edit_first ''html'' with_lang s of None \<Rightarrow> s | Some s' \<Rightarrow> s')
           else s)
      | _ \<Rightarrow> s)"

fun with_marker :: "node \<Rightarrow> node list" where
  "with_marker (Element t a cs) = [Element t a (cs @ [marker])]"
| "with_marker n = [n]"

definition add_marker :: "soup \<Rightarrow> soup" where
  "add_marker s = (case edit_first ''head'' with_marker s of None \<Rightarrow> s | Some s' \<Rightarrow> s')"

text \<open>\<^verbatim>\<open>strip_html\<close> between parsing and printing.\<close>

definition strip_soup :: "soup \<Rightarrow> soup" where
  "strip_soup s =
     add_marker (ensure_lang (unwrap_custom
       (remove_all drop_style (remove_all drop_link (remove_all drop_script (remove_base s))))))"

text \<open>The parser and the printer of the library (\<^verbatim>\<open>BeautifulSoup(html, "lxml")\<close> and
  \<^verbatim>\<open>str(soup)\<close>) and the decoder of \<^verbatim>\<open>read_text(encoding="utf-8", errors="ignore")\<close>
  are parameters.\<close>

record html_lib =
  parse :: "string \<Rightarrow> soup"
  serialize :: "soup \<Rightarrow> string"
  decode :: "string \<Rightarrow> string"
  encode :: "string \<Rightarrow> string"

definition strip_html :: "html_lib \<Rightarrow> string \<Rightarrow> string" where
  "strip_html L html = serialize L (strip_soup (parse L html))"

definition read_text :: "html_lib \<Rightarrow> fsnode \<Rightarrow> path \<Rightarrow> exn + string" where
  "read_text L root p =
     (case realpath root p of
        Inl e \<Rightarrow> Inl e
      | Inr q \<Rightarrow>
          (case lookup root q of
             Some (File b) \<Rightarrow> Inr (decode L b)
           | Some (Dir m) \<Rightarrow> Inl IsADirectoryError
           | None \<Rightarrow> Inl FileNotFoundError))"

text \<open>\<^verbatim>\<open>process_file\<close>\<close>

definition process_file :: "html_lib \<Rightarrow> path \<Rightarrow> bool \<Rightarrow> world \<Rightarrow> (exn + path \<times> bool) \<times> world" where
  "process_file L path in_place w =
     (case read_text L (Dir (fs w)) path of
        Inl e \<Rightarrow> (Inl e, w)
      | Inr original \<Rightarrow>
          (let stripped = strip_html L original;
               changed = (stripped \<noteq> original)
           in if in_place \<and> changed
              then (case write_bytes (Dir (fs w)) path (encode L stripped) of
                      Inl e \<Rightarrow> (Inl e, w)
                    | Inr r \<Rightarrow> (Inr (path, changed), w\<lparr>fs := entries r\<rparr>))
              else (Inr (path, changed), w)))"

text \<open>A library instance for examples: a document is parsed as one text node and
  printed as the concatenation of its top-level texts; the codec is the identity.\<close>

definition plain_lib :: html_lib where
  "plain_lib = \<lparr>parse = (\<lambda>h. [Text h]),
                serialize = (\<lambda>s. concat (map (\<lambda>n. case n of Text t \<Rightarrow> t | _ \<Rightarrow> []) s)),
                decode = (\<lambda>b. b), encode = (\<lambda>s. s)\<rparr>"

section \<open>Shape of parsed documents\<close>

text \<open>The tag names that occur in a tree, and how often one occurs.\<close>

fun tags_of :: "node list \<Rightarrow> string set" where
  "tags_of [] = {}"
| "tags_of (Element t a cs # ns) = insert t (tags_of cs \<union> tags_of ns)"
| "tags_of (Text s # ns) = tags_of ns"
| "tags_of (Comment s # ns) = tags_of ns"
| "tags_of (Doctype s # ns) = tags_of ns"

fun count_tag :: "string \<Rightarrow> node list \<Rightarrow> nat" where
  "count_tag nm [] = 0"
| "count_tag nm (Element t a cs # ns) =
     (if t = nm then 1 else 0) + count_tag nm cs + count_tag nm ns"
| "count_tag nm (Text s # ns) = count_tag nm ns"
| "count_tag nm (Comment s # ns) = count_tag nm ns"
| "count_tag nm (Doctype s # ns) = count_tag nm ns"

text \<open>No element of the tree satisfies \<open>P\<close>.\<close>

fun none_sat :: "(node \<Rightarrow> bool) \<Rightarrow> node list \<Rightarrow> bool" where
  "none_sat P [] = True"
| "none_sat P (Element t a cs # ns) =
     (\<not> P (Element t a cs) \<and> none_sat P cs \<and> none_sat P ns)"
| "none_sat P (Text s # ns) = none_sat P ns"
| "none_sat P (Comment s # ns) = none_sat P ns"
| "none_sat P (Doctype s # ns) = none_sat P ns"

text \<open>An element occurs in a tree.\<close>

fun occurs :: "node \<Rightarrow> node list \<Rightarrow> bool" where
  "occurs e [] = False"
| "occurs e (Element t a cs # ns) = (e = Element t a cs \<or> occurs e cs \<or> occurs e ns)"
| "occurs e (Text s # ns) = occurs e ns"
| "occurs e (Comment s # ns) = occurs e ns"
| "occurs e (Doctype s # ns) = occurs e ns"

fun is_string :: "node \<Rightarrow> bool" where
  "is_string (Element t a cs) = False"
| "is_string n = True"

text \<open>
  The parser reads the content of \<^verbatim>\<open>script\<close> and \<^verbatim>\<open>style\<close> as raw text, and
  \<^verbatim>\<open>link\<close> and \<^verbatim>\<open>base\<close> are void: in a parsed document these elements have no
  element below them.
\<close>

definition raw_tags :: "string list" where
  "raw_tags = [''script'', ''style'', ''link'', ''base'']"

fun misparsed :: "node \<Rightarrow> bool" where
  "misparsed (Element t a cs) = (t \<in> set raw_tags \<and> \<not> list_all is_string cs)"
| "misparsed n = False"

definition well_parsed :: "soup \<Rightarrow> bool" where
  "well_parsed s = none_sat misparsed s"

text \<open>The first \<^verbatim>\<open>html\<close> element, if any, has a non-empty \<^verbatim>\<open>lang\<close>.\<close>

fun node_attrs :: "node \<Rightarrow> (string \<times> string) list" where
  "node_attrs (Element t a cs) = a"
| "node_attrs n = []"

definition lang_ok :: "soup \<Rightarrow> bool" where
  "lang_ok s = (case find_first ''html'' s of
                  None \<Rightarrow> True
                | Some e \<Rightarrow> get_attr (node_attrs e) ''lang'' \<noteq> None \<and> get_attr (node_attrs e) ''lang'' \<noteq> Some [])"

section \<open>Example documents\<close>

text \<open>A page with a base element, a vendor script, a vendor font declaration, a
  vendor-tainted style block and a custom element; a page with only a head and a body;
  and a page whose font declaration is loaded from a vendor URL.\<close>

definition page :: soup where
  "page = [Doctype ''html'',
           Element ''html'' []
             [Element ''head'' []
                [Element ''base'' [(''href'', ''/'')] [],
                 Element ''script'' [(''src'', ''https://static.parastorage.com/x.js'')] [],
                 Element ''style'' []
                   [Text ''@font-face{src:url(//static.wixstatic.com/f.woff)}''],
                 Element ''style'' [] [Text ''a{background:url(//static.wixstatic.com/i.png)}'']],
              Element ''body'' [] [Element ''wix-video'' [] [Element ''p'' [] [Text ''hi'']]]]]"

definition bare_page :: soup where
  "bare_page = [Element ''html'' [] [Element ''head'' [] [], Element ''body'' [] []]]"

definition vendor_font_style :: node where
  "vendor_font_style =
     Element ''style'' [(''data-href'', ''https://static.parastorage.com/services/fonts.css'')]
       [Text ''@font-face{src:url(//static.wixstatic.com/f.woff)}'']"

definition vendor_font_page :: soup where
  "vendor_font_page =
     [Element ''html'' [] [Element ''head'' [] [vendor_font_style], Element ''body'' [] []]]"


section \<open>urllib.parse\<close>

text \<open>The six components of \<^verbatim>\<open>urlparse\<close>.\<close>

record url_parts =
  url_scheme :: string
  url_netloc :: string
  url_path :: string
  url_params :: string
  url_query :: string
  url_fragment :: string

definition uses_relative :: "string list" where
  "uses_relative = ['''', ''ftp'', ''http'', ''gopher'', ''nntp'', ''imap'',
                    ''wais'', ''file'', ''https'', ''shttp'', ''mms'',
                    ''prospero'', ''rtsp'', ''rtsps'', ''rtspu'', ''sftp'',
                    ''svn'', ''svn+ssh'', ''ws'', ''wss'']"

definition uses_netloc :: "string list" where
  "uses_netloc = ['''', ''ftp'', ''http'', ''gopher'', ''nntp'', ''telnet'',
                  ''imap'', ''wais'', ''file'', ''mms'', ''https'', ''shttp'',
                  ''snews'', ''prospero'', ''rtsp'', ''rtsps'', ''rtspu'', ''rsync'',
                  ''svn'', ''svn+ssh'', ''sftp'', ''nfs'', ''git'', ''git+ssh'',
                  ''ws'', ''wss'', ''itms-services'']"

definition uses_params :: "string list" where
  "uses_params = ['''', ''ftp'', ''hdl'', ''prospero'', ''http'', ''imap'',
                  ''https'', ''shttp'', ''rtsp'', ''rtsps'', ''rtspu'', ''sip'',
                  ''sips'', ''mms'', ''sftp'', ''tel'']"

definition scheme_chars :: string where
  "scheme_chars = ''abcdefghijklmnopqrstuvwxyzABCDEFGHIJKLMNOPQRSTUVWXYZ0123456789+-.''"

definition ascii_alpha :: "char \<Rightarrow> bool" where
  "ascii_alpha c = (c \<in> set ''abcdefghijklmnopqrstuvwxyzABCDEFGHIJKLMNOPQRSTUVWXYZ'')"

text \<open>The C0 control characters and the space, and the characters removed from a URL.\<close>

definition c0_or_space :: "char \<Rightarrow> bool" where
  "c0_or_space c = ((of_char c :: nat) \<le> 32)"

definition unsafe_url_char :: "char \<Rightarrow> bool" where
  "unsafe_url_char c = (c = CHR 0x09 \<or> c = CHR 0x0D \<or> c = CHR 0x0A)"

text \<open>\<^verbatim>\<open>_splitnetloc(url, 2)\<close>: the authority ends at the first of \<^verbatim>\<open>/ ? #\<close>.\<close>

definition splitnetloc :: "string \<Rightarrow> string \<times> string" where
  "splitnetloc url =
     (let rest = drop 2 url;
          dom = takeWhile (\<lambda>c. c \<noteq> CHR ''/'' \<and> c \<noteq> CHR ''?'' \<and> c \<noteq> CHR ''#'') rest
      in (dom, drop (length dom) rest))"

text \<open>The checks of the authority that raise \<^verbatim>\<open>ValueError\<close>: brackets must come in
  pairs, and a bracketed host must be valid. (\<^verbatim>\<open>_checknetloc\<close> raises on no
  authority over U+0000..U+00FF.)\<close>

definition netloc_ok :: "env \<Rightarrow> string \<Rightarrow> bool" where
  "netloc_ok E nl =
     (let has_open = CHR ''['' \<in> set nl; has_close = CHR '']'' \<in> set nl
      in if has_open \<noteq> has_close then False
         else if has_open \<and> has_close then valid_ip_literal E nl
         else True)"

text \<open>\<^verbatim>\<open>urlsplit(url, scheme)\<close>; \<open>None\<close> stands for \<^verbatim>\<open>ValueError\<close>.\<close>

definition urlsplit :: "env \<Rightarrow> string \<Rightarrow> string \<Rightarrow> url_parts option" where
  "urlsplit E url0 scheme0 =
     (let url = filter (\<lambda>c. \<not> unsafe_url_char c) (dropWhile c0_or_space url0);
          dflt = filter (\<lambda>c. \<not> unsafe_url_char c)
                   (rev (dropWhile c0_or_space (rev (dropWhile c0_or_space scheme0))));
          (sch, url1) =
             (case find_char CHR '':'' url of
                Some i \<Rightarrow>
                  (if 0 < i \<and> ascii_alpha (hd url) \<and> list_all (\<lambda>c. c \<in> set scheme_chars) (take i url)
                   then (py_lower (take i url), drop (Suc i) url)
                   else (dflt, url))
              | None \<Rightarrow> (dflt, url));
          (nl, url2) = (if startswith url1 ''//'' then splitnetloc url1 else ([], url1))
      in if \<not> netloc_ok E nl then None
         else
           (let (url3, frag) = (if CHR ''#'' \<in> set url2 then split1 CHR ''#'' url2 else (url2, []));
                (url4, qry) = (if CHR ''?'' \<in> set url3 then split1 CHR ''?'' url3 else (url3, []))
            in Some \<lparr>url_scheme = sch, url_netloc = nl, url_path = url4, url_params = [], url_query = qry,
                       url_fragment = frag\<rparr>))"

text \<open>\<^verbatim>\<open>_splitparams\<close>: the parameters of the last path segment.\<close>

definition rfind_char :: "char \<Rightarrow> string \<Rightarrow> nat option" where
  "rfind_char c s =
     (case find_char c (rev s) of None \<Rightarrow> None | Some i \<Rightarrow> Some (length s - 1 - i))"

definition splitparams :: "string \<Rightarrow> string \<times> string" where
  "splitparams url =
     (case rfind_char CHR ''/'' url of
        Some j \<Rightarrow>
          (case find_char CHR '';'' (drop j url) of
             None \<Rightarrow> (url, [])
           | Some i \<Rightarrow> (take (j + i) url, drop (Suc (j + i)) url))
      | None \<Rightarrow>
          (case find_char CHR '';'' url of
             None \<Rightarrow> (take (length url - 1) url, url)
           | Some i \<Rightarrow> (take i url, drop (Suc i) url)))"

text \<open>\<^verbatim>\<open>urlparse(url, scheme)\<close>\<close>

definition urlparse_with :: "env \<Rightarrow> string \<Rightarrow> string \<Rightarrow> url_parts option" where
  "urlparse_with E url scheme0 =
     (case urlsplit E url scheme0 of
        None \<Rightarrow> None
      | Some r \<Rightarrow>
          (if url_scheme r \<in> set uses_params \<and> CHR '';'' \<in> set (url_path r)
           then (case splitparams (url_path r) of (u, p) \<Rightarrow> Some (r\<lparr>url_path := u, url_params := p\<rparr>))
           else Some r))"

definition urlparse :: "env \<Rightarrow> string \<Rightarrow> url_parts option" where
  "urlparse E url = urlparse_with E url []"

text \<open>\<^verbatim>\<open>urlunparse\<close> (and \<^verbatim>\<open>geturl\<close>)\<close>

definition urlunsplit :: "string \<Rightarrow> string \<Rightarrow> string \<Rightarrow> string \<Rightarrow> string \<Rightarrow> string" where
  "urlunsplit sch nl url qry frag =
     (let url1 = (if nl \<noteq> [] \<or> (sch \<noteq> [] \<and> sch \<in> set uses_netloc \<and> take 2 url \<noteq> ''//'')
                  then ''//'' @ nl @ (if url \<noteq> [] \<and> take 1 url \<noteq> ''/'' then ''/'' @ url else url)
                  else url);
          url2 = (if sch \<noteq> [] then sch @ '':'' @ url1 else url1);
          url3 = (if qry \<noteq> [] then url2 @ ''?'' @ qry else url2)
      in if frag \<noteq> [] then url3 @ ''#'' @ frag else url3)"

definition urlunparse :: "url_parts \<Rightarrow> string" where
  "urlunparse r =
     urlunsplit (url_scheme r) (url_netloc r)
       (if url_params r \<noteq> [] then url_path r @ '';'' @ url_params r else url_path r) (url_query r) (url_fragment r)"

text \<open>The dot segments of \<^verbatim>\<open>urljoin\<close>: \<^verbatim>\<open>..\<close> pops a segment when there is one and
  \<^verbatim>\<open>.\<close> is skipped.\<close>

fun resolve_segments :: "string list \<Rightarrow> string list \<Rightarrow> string list" where
  "resolve_segments acc [] = acc"
| "resolve_segments acc (seg # segs) =
     (if seg = ''..'' then resolve_segments (butlast acc) segs
      else if seg = ''.'' then resolve_segments acc segs
      else resolve_segments (acc @ [seg]) segs)"

text \<open>\<^verbatim>\<open>segments[1:-1] = filter(None, segments[1:-1])\<close>\<close>

definition drop_empty_inner :: "string list \<Rightarrow> string list" where
  "drop_empty_inner segs =
     take 1 segs @ filter (\<lambda>s. s \<noteq> []) (butlast (drop 1 segs))
       @ (if length segs \<ge> 2 then [last segs] else [])"

text \<open>\<^verbatim>\<open>urljoin(base, url)\<close>\<close>

definition urljoin :: "env \<Rightarrow> string \<Rightarrow> string \<Rightarrow> string option" where
  "urljoin E base url =
     (if base = [] then Some url
      else if url = [] then Some base
      else
        (case urlparse_with E base [] of
           None \<Rightarrow> None
         | Some b \<Rightarrow>
             (case urlparse_with E url (url_scheme b) of
                None \<Rightarrow> None
              | Some u \<Rightarrow>
                  (if url_scheme u \<noteq> url_scheme b \<or> url_scheme u \<notin> set uses_relative then Some url
                   else if url_scheme u \<in> set uses_netloc \<and> url_netloc u \<noteq> [] then Some (urlunparse u)
                   else
                     (let nl = (if url_scheme u \<in> set uses_netloc then url_netloc b else url_netloc u)
                      in if url_path u = [] \<and> url_params u = []
                         then Some (urlunparse
                                (u\<lparr>url_netloc := nl, url_path := url_path b, url_params := url_params b,
                                   url_query := (if url_query u = [] then url_query b else url_query u)\<rparr>))
                         else
                           (let base_parts = py_split CHR ''/'' (url_path b);
                                base_parts' = (if last base_parts \<noteq> [] then butlast base_parts
                                               else base_parts);
                                segments = (if take 1 (url_path u) = ''/'' then py_split CHR ''/'' (url_path u)
                                            else drop_empty_inner
                                                   (base_parts' @ py_split CHR ''/'' (url_path u)));
                                resolved = resolve_segments [] segments;
                                resolved' = (if last segments = ''.'' \<or> last segments = ''..''
                                             then resolved @ [[]] else resolved);
                                joined = py_join ''/'' resolved'
                            in Some (urlunparse
                                 (u\<lparr>url_netloc := nl,
                                    url_path := (if joined = [] then ''/'' else joined)\<rparr>))))))))"

section \<open>The scraper: URLs and names\<close>

text \<open>\<^verbatim>\<open>_is_http_url\<close>: a URL that does not parse is not an HTTP URL.\<close>

definition is_http_url :: "env \<Rightarrow> string \<Rightarrow> bool" where
  "is_http_url E url =
     (case urlparse E url of None \<Rightarrow> False | Some p \<Rightarrow> url_scheme p = ''http'' \<or> url_scheme p = ''https'')"

text \<open>\<^verbatim>\<open>_normalize_url\<close> and \<^verbatim>\<open>_strip_fragment\<close>\<close>

definition normalize_url :: "env \<Rightarrow> string \<Rightarrow> string \<Rightarrow> string option" where
  "normalize_url E base_url maybe_relative = urljoin E base_url maybe_relative"

definition strip_fragment :: "env \<Rightarrow> string \<Rightarrow> string option" where
  "strip_fragment E url =
     (case urlparse E url of None \<Rightarrow> None | Some p \<Rightarrow> Some (urlunparse (p\<lparr>url_fragment := []\<rparr>)))"

text \<open>\<^verbatim>\<open>posixpath.basename\<close>: what follows the last slash.\<close>

definition basename :: "string \<Rightarrow> string" where
  "basename p = rev (takeWhile (\<lambda>c. c \<noteq> CHR ''/'') (rev p))"

text \<open>\<^verbatim>\<open>os.path.splitext\<close> of a name without a separator: the extension starts at the
  last dot, unless only dots come before it.\<close>

definition splitext :: "string \<Rightarrow> string \<times> string" where
  "splitext p =
     (case rfind_char CHR ''.'' p of
        None \<Rightarrow> (p, [])
      | Some i \<Rightarrow>
          (if \<exists>c \<in> set (take i p). c \<noteq> CHR ''.'' then (take i p, drop i p) else (p, [])))"

text \<open>\<^verbatim>\<open>re.sub(r"[^A-Za-z0-9._-]+", "_", base)\<close>: every maximal run of other characters
  becomes one underscore.\<close>

definition name_char :: "char \<Rightarrow> bool" where
  "name_char c =
     (c \<in> set ''ABCDEFGHIJKLMNOPQRSTUVWXYZabcdefghijklmnopqrstuvwxyz0123456789._-'')"

fun sanitize_run :: "bool \<Rightarrow> string \<Rightarrow> string" where
  "sanitize_run in_run [] = []"
| "sanitize_run in_run (c # cs) =
     (if name_char c then c # sanitize_run False cs
      else if in_run then sanitize_run True cs
      else CHR ''_'' # sanitize_run True cs)"

definition sanitize :: "string \<Rightarrow> string" where
  "sanitize s = sanitize_run False s"

text \<open>What the query adds to the name: nothing for an empty query, and otherwise an
  underscore and the first eight digits of its digest.\<close>

definition query_tag :: "string \<Rightarrow> string" where
  "query_tag q = (if q = [] then [] else ''_'' @ take 8 (sha256_hex q))"

text \<open>\<^verbatim>\<open>_safe_filename_from_url\<close>\<close>

definition safe_filename_from_url :: "env \<Rightarrow> string \<Rightarrow> string option" where
  "safe_filename_from_url E url =
     (case urlparse E url of
        None \<Rightarrow> None
      | Some parsed \<Rightarrow>
          (let base = basename (url_path parsed);
               name = (if base \<noteq> [] \<and> CHR ''.'' \<in> set base then sanitize base
                       else ''asset_'' @ take 16 (sha256_hex url))
           in if url_query parsed \<noteq> []
              then (case splitext name of (root, ext) \<Rightarrow> Some (root @ query_tag (url_query parsed) @ ext))
              else Some name))"

text \<open>\<^verbatim>\<open>s.endswith(suffix)\<close>\<close>

definition endswith :: "string \<Rightarrow> string \<Rightarrow> bool" where
  "endswith s suf = startswith (rev s) (rev suf)"

text \<open>The name before the query is looked at.\<close>

definition name0 :: "string \<Rightarrow> string \<Rightarrow> string" where
  "name0 url pth =
     (let base = basename pth
      in if base \<noteq> [] \<and> CHR ''.'' \<in> set base then sanitize base
         else ''asset_'' @ take 16 (sha256_hex url))"


section \<open>Paths\<close>

text \<open>\<^verbatim>\<open>p / name\<close>: the components of the name are appended, without the empty ones
  and the dots; a name that starts with a slash replaces the path.\<close>

definition path_div :: "path \<Rightarrow> string \<Rightarrow> path" where
  "path_div p name =
     (let parts = filter (\<lambda>c. c \<noteq> [] \<and> c \<noteq> ''.'') (py_split CHR ''/'' name)
      in if startswith name ''/'' then parts else p @ parts)"

text \<open>\<^verbatim>\<open>os.path.normpath\<close> of an absolute path: \<^verbatim>\<open>..\<close> removes the component before
  it, and nothing at the root.\<close>

definition normpath :: "path \<Rightarrow> path" where
  "normpath p = foldl (\<lambda>acc c. if c = ''..'' then butlast acc else acc @ [c]) [] p"

fun common_prefix_length :: "path \<Rightarrow> path \<Rightarrow> nat" where
  "common_prefix_length (x # xs) (y # ys) = (if x = y then Suc (common_prefix_length xs ys) else 0)"
| "common_prefix_length xs ys = 0"

text \<open>\<^verbatim>\<open>os.path.relpath(p, start).replace(os.sep, "/")\<close>\<close>

definition relpath :: "path \<Rightarrow> path \<Rightarrow> string" where
  "relpath p start =
     (let start_list = normpath start;
          path_list = normpath p;
          i = common_prefix_length start_list path_list;
          rel_list = replicate (length start_list - i) ''..'' @ drop i path_list
      in if rel_list = [] then ''.'' else py_join ''/'' rel_list)"

text \<open>\<^verbatim>\<open>p.relative_to(other).as_posix()\<close>; \<^verbatim>\<open>ValueError\<close> when \<open>other\<close> is not a
  prefix of \<open>p\<close>.\<close>

definition relative_to_posix :: "path \<Rightarrow> path \<Rightarrow> exn + string" where
  "relative_to_posix p other =
     (if take (length other) p = other
      then Inr (let rel = drop (length other) p in if rel = [] then ''.'' else py_join ''/'' rel)
      else Inl ValueError)"

section \<open>The scraper: references in HTML and CSS\<close>

text \<open>The repair of the query parameter that entity decoding has mangled:
  \<^verbatim>\<open>&reg\<close> read as the registered sign (U+00AE).\<close>

definition fix_entities :: "string \<Rightarrow> string" where
  "fix_entities raw =
     py_replace ''trueregistryLibrariesTopology'' ''true&registryLibrariesTopology''
       (py_replace ''falseregistryLibrariesTopology'' ''false&registryLibrariesTopology''
          (py_replace (CHR 0xAE # ''istryLibrariesTopology'') ''registryLibrariesTopology'' raw))"

text \<open>Resolving a reference against a base and dropping the fragment.\<close>

definition resolve :: "env \<Rightarrow> string \<Rightarrow> string \<Rightarrow> string option" where
  "resolve E base raw =
     (case normalize_url E base raw of None \<Rightarrow> None | Some a \<Rightarrow> strip_fragment E a)"

definition thunderbolt_pattern :: string where
  "thunderbolt_pattern = ''siteassets.parastorage.com/pages/pages/thunderbolt''"

text \<open>
  \<^verbatim>\<open>localize_attr\<close> on the attributes of one tag. The result is the attributes after
  the call; an exception of the download is caught and leaves them as they were, an
  exception of the URL functions is not caught.
\<close>

definition localize_attr ::
  "env \<Rightarrow> string \<Rightarrow> path \<Rightarrow> path \<Rightarrow> (string \<times> string) list \<Rightarrow> string \<Rightarrow> world
     \<Rightarrow> (exn + (string \<times> string) list) \<times> world" where
  "localize_attr E page_url out_html_path assets_dir attrs attr w =
     (case get_attr attrs attr of
        None \<Rightarrow> (Inr attrs, w)
      | Some val \<Rightarrow>
          (if val = [] then (Inr attrs, w)
           else
             (let raw0 = py_strip val in
              if startswith raw0 ''data:'' then (Inr attrs, w)
              else if startswith raw0 ''mailto:'' \<or> startswith raw0 ''tel:'' then (Inr attrs, w)
              else if startswith raw0 ''#'' then (Inr attrs, w)
              else
                (case resolve E page_url (fix_entities raw0) of
                   None \<Rightarrow> (Inl ValueError, w)
                 | Some abs_url \<Rightarrow>
                     (if \<not> is_http_url E abs_url then (Inr attrs, w)
                      else if str_in thunderbolt_pattern abs_url
                      then (Inr (set_attr attrs attr abs_url), w)
                      else
                        (case safe_filename_from_url E abs_url of
                           None \<Rightarrow> (Inl ValueError, w)
                         | Some filename \<Rightarrow>
                             (let local_path = path_div assets_dir filename in
                              case download_binary E abs_url local_path w of
                                (Inl e, w') \<Rightarrow> (Inr attrs, w')
                              | (Inr downloaded, w') \<Rightarrow>
                                  (Inr (set_attr attrs attr
                                          (relpath local_path (butlast out_html_path))), w'))))))))"

text \<open>
  The rewriting of one anchor: \<open>Inr None\<close> when the anchor is left as it is, and
  \<open>Inr (Some h)\<close> when its \<^verbatim>\<open>href\<close> becomes \<open>h\<close>.
\<close>

definition rewrite_anchor :: "env \<Rightarrow> string \<Rightarrow> string \<Rightarrow> exn + string option" where
  "rewrite_anchor E page_url href =
     (case urlparse E page_url of
        None \<Rightarrow> Inl ValueError
      | Some page_parsed \<Rightarrow>
          (if href = [] then Inr None
           else
             (let h = py_strip href in
              if startswith h ''#'' \<or> startswith h ''mailto:'' \<or> startswith h ''tel:''
              then Inr None
              else
                (case normalize_url E page_url h of
                   None \<Rightarrow> Inl ValueError
                 | Some abs_url \<Rightarrow>
                     (case urlparse E abs_url of
                        None \<Rightarrow> Inl ValueError
                      | Some parsed \<Rightarrow>
                          (if url_netloc parsed \<noteq> url_netloc page_parsed then Inr None
                           else
                             (let frag = (if url_fragment parsed \<noteq> [] then ''#'' @ url_fragment parsed
                                          else []);
                                  qry = (if url_query parsed \<noteq> [] then ''?'' @ url_query parsed
                                         else []);
                                  pth = (if url_path parsed = [] then ''/'' else url_path parsed)
                              in if pth = ''/''
                                 then Inr (Some (py_replace ''/?'' ''?'' (''/'' @ qry @ frag)))
                                 else Inr (Some (py_replace ''//'' ''/''
                                        (rstrip_chars ''/'' pth @ ''/'' @ qry @ frag @ ''/''))))))))))"






section \<open>The worker bootstrap localizer\<close>

text \<open>A parsed JSON document. An object is the list of its members in order; a
  floating-point number is kept as mantissa and binary exponent.\<close>

datatype json =
    JNull
  | JBool bool
  | JInt int
  | JFloat int int
  | JStr string
  | JArr "json list"
  | JObj "(string \<times> json) list"

text \<open>Python's truth value of a JSON value, and of \<^verbatim>\<open>None\<close>.\<close>

fun truthy :: "json \<Rightarrow> bool" where
  "truthy JNull = False"
| "truthy (JBool b) = b"
| "truthy (JInt i) = (i \<noteq> 0)"
| "truthy (JFloat m e) = (m \<noteq> 0)"
| "truthy (JStr s) = (s \<noteq> [])"
| "truthy (JArr xs) = (xs \<noteq> [])"
| "truthy (JObj kvs) = (kvs \<noteq> [])"

text \<open>
  \<^verbatim>\<open>model.get("site", {}).get("externalBaseUrl")\<close> inside \<^verbatim>\<open>try\<close>: \<open>None\<close> when a key
  is missing or when the model or its \<^verbatim>\<open>site\<close> is not an object (the
  \<^verbatim>\<open>AttributeError\<close> is caught).
\<close>

definition external_base_of :: "json \<Rightarrow> json option" where
  "external_base_of model =
     (case model of
        JObj kvs \<Rightarrow>
          (case map_of kvs ''site'' of
             None \<Rightarrow> None
           | Some (JObj site) \<Rightarrow> map_of site ''externalBaseUrl''
           | Some other \<Rightarrow> None)
      | other \<Rightarrow> None)"

text \<open>
  \<^verbatim>\<open>maybe_rewrite_value\<close> on a string, with the value \<open>eb\<close> that the lookup of
  \<^verbatim>\<open>site.externalBaseUrl\<close> gives at that moment.
\<close>

definition maybe_rewrite_value ::
  "env \<Rightarrow> path \<Rightarrow> json option \<Rightarrow> string \<Rightarrow> world \<Rightarrow> (exn + string) \<times> world" where
  "maybe_rewrite_value E assets_dir eb v w =
     (if \<not> str_in ''clientWorker.'' v \<and> \<not> str_in ''wix-thunderbolt'' v then (Inr v, w)
      else if \<not> str_in ''clientWorker.'' v then (Inr v, w)
      else
        (case strip_fragment E v of
           None \<Rightarrow> (Inl ValueError, w)
         | Some raw \<Rightarrow>
             (let resolved =
                (if is_http_url E raw then Inr (Some raw)
                 else if startswith raw ''/''
                 then (case eb of
                         None \<Rightarrow> Inr None
                       | Some b \<Rightarrow>
                           (if \<not> truthy b then Inr None
                            else (case b of
                                    JStr external_base \<Rightarrow>
                                      (case urljoin E (rstrip_chars ''/'' external_base @ ''/'')
                                              (lstrip_chars ''/'' raw) of
                                         None \<Rightarrow> Inl ValueError
                                       | Some a \<Rightarrow> Inr (Some a))
                                  | other \<Rightarrow> Inl AttributeError)))
                 else Inr None)
              in case resolved of
                   Inl e \<Rightarrow> (Inl e, w)
                 | Inr None \<Rightarrow> (Inr v, w)
                 | Inr (Some abs_url) \<Rightarrow>
                     (case safe_filename_from_url E abs_url of
                        None \<Rightarrow> (Inl ValueError, w)
                      | Some filename \<Rightarrow>
                          (let out_path = path_div (path_div assets_dir ''wix-workers'') filename in
                           case download_binary E abs_url out_path w of
                             (Inl e, w') \<Rightarrow> (Inr v, w')
                           | (Inr downloaded, w') \<Rightarrow>
                               (case relative_to_posix out_path (butlast assets_dir) of
                                  Inl e \<Rightarrow> (Inl e, w')
                                | Inr rel \<Rightarrow> (Inr (''/'' @ rel), w')))))))"

text \<open>
  \<^verbatim>\<open>walk\<close> below a point where the lookup of \<^verbatim>\<open>site.externalBaseUrl\<close> cannot
  change: the members of an object and the elements of a list are walked in order.
\<close>

fun walk :: "env \<Rightarrow> path \<Rightarrow> json option \<Rightarrow> json \<Rightarrow> world \<Rightarrow> (exn + json) \<times> world"
  and walk_members ::
    "env \<Rightarrow> path \<Rightarrow> json option \<Rightarrow> (string \<times> json) list \<Rightarrow> world
       \<Rightarrow> (exn + (string \<times> json) list) \<times> world"
  and walk_list :: "env \<Rightarrow> path \<Rightarrow> json option \<Rightarrow> json list \<Rightarrow> world \<Rightarrow> (exn + json list) \<times> world"
where
  "walk E ad eb (JObj kvs) w =
     (case walk_members E ad eb kvs w of
        (Inl e, w') \<Rightarrow> (Inl e, w')
      | (Inr kvs', w') \<Rightarrow> (Inr (JObj kvs'), w'))"
| "walk E ad eb (JArr xs) w =
     (case walk_list E ad eb xs w of
        (Inl e, w') \<Rightarrow> (Inl e, w')
      | (Inr xs', w') \<Rightarrow> (Inr (JArr xs'), w'))"
| "walk E ad eb (JStr s) w =
     (case maybe_rewrite_value E ad eb s w of
        (Inl e, w') \<Rightarrow> (Inl e, w')
      | (Inr s', w') \<Rightarrow> (Inr (JStr s'), w'))"
| "walk E ad eb JNull w = (Inr JNull, w)"
| "walk E ad eb (JBool b) w = (Inr (JBool b), w)"
| "walk E ad eb (JInt i) w = (Inr (JInt i), w)"
| "walk E ad eb (JFloat m e) w = (Inr (JFloat m e), w)"
| "walk_members E ad eb [] w = (Inr [], w)"
| "walk_members E ad eb ((k, v) # kvs) w =
     (case walk E ad eb v w of
        (Inl e, w') \<Rightarrow> (Inl e, w')
      | (Inr v', w') \<Rightarrow>
          (case walk_members E ad eb kvs w' of
             (Inl e, w'') \<Rightarrow> (Inl e, w'')
           | (Inr kvs', w'') \<Rightarrow> (Inr ((k, v') # kvs'), w'')))"
| "walk_list E ad eb [] w = (Inr [], w)"
| "walk_list E ad eb (x # xs) w =
     (case walk E ad eb x w of
        (Inl e, w') \<Rightarrow> (Inl e, w')
      | (Inr x', w') \<Rightarrow>
          (case walk_list E ad eb xs w' of
             (Inl e, w'') \<Rightarrow> (Inl e, w'')
           | (Inr xs', w'') \<Rightarrow> (Inr (x' # xs'), w'')))"

text \<open>
  The members of the \<^verbatim>\<open>site\<close> object of the model: the object is changed in place,
  so once the member \<^verbatim>\<open>externalBaseUrl\<close> has been walked the lookup gives its new value.
\<close>

fun walk_site ::
    "env \<Rightarrow> path \<Rightarrow> json option \<Rightarrow> (string \<times> json) list \<Rightarrow> world
       \<Rightarrow> (exn + (string \<times> json) list \<times> json option) \<times> world" where
  "walk_site E ad eb [] w = (Inr ([], eb), w)"
| "walk_site E ad eb ((k, v) # kvs) w =
     (case walk E ad eb v w of
        (Inl e, w') \<Rightarrow> (Inl e, w')
      | (Inr v', w') \<Rightarrow>
          (case walk_site E ad (if k = ''externalBaseUrl'' then Some v' else eb) kvs w' of
             (Inl e, w'') \<Rightarrow> (Inl e, w'')
           | (Inr (kvs', eb'), w'') \<Rightarrow> (Inr ((k, v') # kvs', eb'), w'')))"

text \<open>One member of the model itself, when the model is an object: the member
  \<^verbatim>\<open>site\<close>, when it is an object, is walked as above; the result carries the value of
  the lookup after the member.\<close>

definition walk_top_member ::
    "env \<Rightarrow> path \<Rightarrow> json option \<Rightarrow> string \<Rightarrow> json \<Rightarrow> world
       \<Rightarrow> (exn + json \<times> json option) \<times> world" where
  "walk_top_member E ad eb k v w =
     (case v of
        JObj site \<Rightarrow>
          (if k = ''site''
           then (case walk_site E ad eb site w of
                   (Inl e, w') \<Rightarrow> (Inl e, w')
                 | (Inr (site', eb'), w') \<Rightarrow> (Inr (JObj site', eb'), w'))
           else (case walk E ad eb v w of
                   (Inl e, w') \<Rightarrow> (Inl e, w')
                 | (Inr v', w') \<Rightarrow> (Inr (v', eb), w')))
      | other \<Rightarrow>
          (case walk E ad eb v w of
             (Inl e, w') \<Rightarrow> (Inl e, w')
           | (Inr v', w') \<Rightarrow> (Inr (v', eb), w')))"

fun walk_top ::
    "env \<Rightarrow> path \<Rightarrow> json option \<Rightarrow> (string \<times> json) list \<Rightarrow> world
       \<Rightarrow> (exn + (string \<times> json) list) \<times> world" where
  "walk_top E ad eb [] w = (Inr [], w)"
| "walk_top E ad eb ((k, v) # kvs) w =
     (case walk_top_member E ad eb k v w of
        (Inl e, w') \<Rightarrow> (Inl e, w')
      | (Inr (v', eb'), w') \<Rightarrow>
          (case walk_top E ad eb' kvs w' of
             (Inl e, w'') \<Rightarrow> (Inl e, w'')
           | (Inr kvs', w'') \<Rightarrow> (Inr ((k, v') # kvs'), w'')))"

text \<open>\<^verbatim>\<open>model = walk(model)\<close>\<close>

definition walk_model :: "env \<Rightarrow> path \<Rightarrow> json \<Rightarrow> world \<Rightarrow> (exn + json) \<times> world" where
  "walk_model E ad model w =
     (case model of
        JObj kvs \<Rightarrow>
          (case walk_top E ad (external_base_of model) kvs w of
             (Inl e, w') \<Rightarrow> (Inl e, w')
           | (Inr kvs', w') \<Rightarrow> (Inr (JObj kvs'), w'))
      | other \<Rightarrow> walk E ad None model w)"

text \<open>
  The shape of a document is kept: the same members under the same keys in the same
  order, lists of the same length, the same scalars, and the same strings where a string
  does not contain \<^verbatim>\<open>clientWorker.\<close>.
\<close>

fun shape_kept :: "json \<Rightarrow> json \<Rightarrow> bool"
  and members_kept :: "(string \<times> json) list \<Rightarrow> (string \<times> json) list \<Rightarrow> bool"
  and elements_kept :: "json list \<Rightarrow> json list \<Rightarrow> bool"
where
  "shape_kept (JObj kvs) j = (case j of JObj kvs' \<Rightarrow> members_kept kvs kvs' | other \<Rightarrow> False)"
| "shape_kept (JArr xs) j = (case j of JArr xs' \<Rightarrow> elements_kept xs xs' | other \<Rightarrow> False)"
| "shape_kept (JStr s) j =
     (case j of JStr s' \<Rightarrow> str_in ''clientWorker.'' s \<or> s' = s | other \<Rightarrow> False)"
| "shape_kept JNull j = (j = JNull)"
| "shape_kept (JBool b) j = (j = JBool b)"
| "shape_kept (JInt i) j = (j = JInt i)"
| "shape_kept (JFloat m e) j = (j = JFloat m e)"
| "members_kept [] kvs' = (kvs' = [])"
| "members_kept ((k, v) # kvs) kvs' =
     (case kvs' of [] \<Rightarrow> False | (k', v') # rest \<Rightarrow> k' = k \<and> shape_kept v v' \<and> members_kept kvs rest)"
| "elements_kept [] xs' = (xs' = [])"
| "elements_kept (x # xs) xs' =
     (case xs' of [] \<Rightarrow> False | x' # rest \<Rightarrow> shape_kept x x' \<and> elements_kept xs rest)"

text \<open>A document mentions the worker when one of its strings contains
  \<^verbatim>\<open>clientWorker.\<close>.\<close>

fun mentions_worker :: "json \<Rightarrow> bool" where
  "mentions_worker (JStr s) = str_in ''clientWorker.'' s"
| "mentions_worker (JArr xs) = list_ex mentions_worker xs"
| "mentions_worker (JObj kvs) = list_ex (\<lambda>kv. mentions_worker (snd kv)) kvs"
| "mentions_worker j = False"

section \<open>Example references\<close>

text \<open>A reference to a runtime bundle with a long query string, a server that cannot
  be reached, and a quoted \<^verbatim>\<open>url(...)\<close> token.\<close>

definition bundle_ref :: string where
  "bundle_ref = ''//siteassets.parastorage.com/pages/pages/thunderbolt?dfVersion=1&x=y''"

definition unreachable :: env where
  "unreachable = \<lparr>http_get = (\<lambda>log url. Failed), dir_st_size = 4096,
                   valid_ip_literal = (\<lambda>host. True)\<rparr>"


text \<open>A root-relative reference to the worker bundle, a viewer model that holds it, and
  the world after the bundle has been fetched into \<^verbatim>\<open>site/assets/wix-workers\<close>.\<close>

definition worker_ref :: string where
  "worker_ref = ''/clientWorker.abc123.bundle.min.js''"

definition viewer_model :: json where
  "viewer_model =
     JObj [(''site'', JObj [(''externalBaseUrl'', JStr ''https://cdn.example.com'')]),
           (''worker'', JStr worker_ref),
           (''count'', JInt 3),
           (''pages'', JArr [JStr ''home'', JNull])]"

definition worker_world :: "string \<Rightarrow> string \<Rightarrow> world" where
  "worker_world body url =
     \<lparr>fs = [''site'' \<mapsto> Dir [''assets'' \<mapsto> Dir [''wix-workers'' \<mapsto>
               Dir [''clientWorker.abc123.bundle.min.js'' \<mapsto> File body]]]],
      requests = [url]\<rparr>"

text \<open>A viewer model whose worker value and \<^verbatim>\<open>externalBaseUrl\<close> join to a URL with the
  last path segment \<^verbatim>\<open>.\<close>, and the world in which \<^verbatim>\<open>site/assets/wix-workers\<close> is a
  file with the body fetched from that URL.\<close>

definition dot_name_model :: json where
  "dot_name_model =
     JObj [(''site'', JObj [(''externalBaseUrl'', JStr ''https://cdn.example.com/.#f'')]),
           (''worker'', JStr ''/#clientWorker.'')]"

definition stray_world :: "string \<Rightarrow> world" where
  "stray_world body =
     \<lparr>fs = [''site'' \<mapsto> Dir [''assets'' \<mapsto> Dir [''wix-workers'' \<mapsto> File body]]],
      requests = [''https://cdn.example.com/.#f/'']\<rparr>"

chapter \<open>Properties\<close>

section \<open>The file system and the fetcher\<close>

lemma realpath_from_snoc:
  "realpath_from root cur (xs @ [c]) =
     (case realpath_from root cur xs of Inl e \<Rightarrow> Inl e | Inr d \<Rightarrow> realpath_from root d [c])"
  by (induction xs arbitrary: cur) (auto split: option.splits fsnode.splits)

lemma realpath_from_single:
  "realpath_from root cur [c] = Inr q \<Longrightarrow>
     \<exists>m. lookup root cur = Some (Dir m) \<and>
         (if c = ''..'' then q = butlast cur else m c \<noteq> None \<and> q = cur @ [c])"
  by (auto split: option.splits fsnode.splits if_splits)


lemma mkdir_existing:
  assumes "realpath (Dir m0) q = Inr d" "lookup (Dir m0) d = Some (Dir m)"
  shows "mkdir_parents (Dir m0) q = Inr (Dir m0)"
proof (cases "q = []")
  case True
  then show ?thesis
    by (simp add: mkdir_parents.simps os_mkdir_def is_dir_def stat_def realpath_def)
next
  case False
  then have q: "q = butlast q @ [last q]" by simp
  from assms(1) obtain d0 where d0: "realpath (Dir m0) (butlast q) = Inr d0"
    and st: "realpath_from (Dir m0) d0 [last q] = Inr d"
    unfolding realpath_def using realpath_from_snoc[of "Dir m0" "[]" "butlast q" "last q"] q
    by (auto split: sum.splits)
  from realpath_from_single[OF st] obtain m1 where
    m1: "lookup (Dir m0) d0 = Some (Dir m1)" "last q = ''..'' \<or> m1 (last q) \<noteq> None"
    by (auto split: if_splits)
  have os: "os_mkdir (Dir m0) q = Inl FileExistsError"
    using False d0 m1 by (auto simp: os_mkdir_def)
  have "is_dir (Dir m0) q" using assms by (simp add: is_dir_def stat_def)
  with os show ?thesis by (subst mkdir_parents.simps) simp
qed


lemma stat_file_parent:
  assumes "stat (Dir m0) p = Some (File b)"
  shows "p \<noteq> [] \<and> (\<exists>d m. realpath (Dir m0) (butlast p) = Inr d \<and> lookup (Dir m0) d = Some (Dir m))"
proof -
  have ne: "p \<noteq> []" using assms by (auto simp: stat_def realpath_def)
  then have q: "p = butlast p @ [last p]" by simp
  from assms obtain q' where "realpath (Dir m0) p = Inr q'"
    by (auto simp: stat_def split: sum.splits)
  then obtain d where d: "realpath (Dir m0) (butlast p) = Inr d"
    and st: "realpath_from (Dir m0) d [last p] = Inr q'"
    unfolding realpath_def using realpath_from_snoc[of "Dir m0" "[]" "butlast p" "last p"] q
    by (auto split: sum.splits)
  from realpath_from_single[OF st] d ne show ?thesis by blast
qed

lemma download_existing:
  assumes "stat (Dir (fs w)) p = Some (File b)" "b \<noteq> []"
  shows "download_binary E url p w = (Inr False, w)"
proof -
  from stat_file_parent[OF assms(1)] obtain d m where
    "realpath (Dir (fs w)) (butlast p) = Inr d" "lookup (Dir (fs w)) d = Some (Dir m)" by blast
  then have "ensure_parent p (Dir (fs w)) = Inr (Dir (fs w))"
    unfolding ensure_parent_def by (rule mkdir_existing)
  then show ?thesis using assms
    by (simp add: download_binary_def entries_def st_size_def)
qed

lemma lookup_File [simp]: "lookup (File b) xs = Some n \<longleftrightarrow> xs = [] \<and> n = File b"
  by (cases xs) auto

lemma lookup_append:
  "lookup root (d @ e) = (case lookup root d of None \<Rightarrow> None | Some n \<Rightarrow> lookup n e)"
proof (induction d arbitrary: root)
  case Nil
  then show ?case by simp
next
  case (Cons a d)
  then show ?case by (cases root) (auto split: option.splits)
qed

lemma lookup_put_dir:
  assumes "lookup root cur = Some (Dir m)"
    and "lookup root P = None \<or> (\<exists>b. lookup root P = Some (File b))"
  shows "\<exists>m'. lookup (put root P (File b')) cur = Some (Dir m') \<and> (\<forall>k. m k \<noteq> None \<longrightarrow> m' k \<noteq> None)"
  using assms
proof (induction root P "File b'" arbitrary: cur m rule: put.induct)
  case (1 n)
  then show ?case by (cases cur) auto
next
  case (2 b c cs)
  then show ?case by auto
next
  case (3 m0 c)
  then show ?case by (cases cur) (auto split: option.splits if_splits)
next
  case (4 m0 c c' cs)
  show ?case
  proof (cases cur)
    case Nil
    then show ?thesis using 4 by (auto split: option.splits)
  next
    case (Cons c1 cur')
    then show ?thesis using 4 by (auto split: option.splits if_splits)
  qed
qed

lemma realpath_from_put:
  assumes "lookup root P = None \<or> (\<exists>b. lookup root P = Some (File b))"
    and "realpath_from root cur xs = Inr q"
  shows "realpath_from (put root P (File b')) cur xs = Inr q"
  using assms(2)
proof (induction xs arbitrary: cur)
  case Nil
  then show ?case by simp
next
  case (Cons c cs)
  from Cons.prems obtain m where m: "lookup root cur = Some (Dir m)"
    by (auto split: option.splits fsnode.splits)
  from lookup_put_dir[OF m assms(1)] obtain m' where
    m': "lookup (put root P (File b')) cur = Some (Dir m')" "\<forall>k. m k \<noteq> None \<longrightarrow> m' k \<noteq> None"
    by blast
  show ?case using Cons m m' by (auto split: option.splits if_splits)
qed

lemma lookup_put_at:
  "lookup root d = Some (Dir m) \<Longrightarrow>
   lookup (put root (d @ [c]) x) d = Some (Dir (m(c \<mapsto> x))) \<and>
   lookup (put root (d @ [c]) x) (d @ [c]) = Some x"
proof (induction d arbitrary: root)
  case Nil
  then show ?case by (auto simp: fun_upd_def)
next
  case (Cons a d)
  then obtain m0 n where r: "root = Dir m0" "m0 a = Some n" "lookup n d = Some (Dir m)"
    by (cases root) (auto split: option.splits)
  have "put (Dir m0) ((a # d) @ [c]) x = Dir (m0(a \<mapsto> put n (d @ [c]) x))"
    using r by (cases d) auto
  then show ?case using Cons.IH[OF r(3)] r by simp
qed

lemma put_is_dir: "\<exists>m. put (Dir m0) (d @ [c]) x = Dir m"
  by (cases d; cases "tl d") (auto split: option.splits)

lemma write_then_stat:
  assumes "write_bytes (Dir m0) p b = Inr r2"
  shows "stat r2 p = Some (File b) \<and> (\<exists>m. r2 = Dir m)"
proof -
  from assms have ne: "p \<noteq> []" by (auto simp: write_bytes_def)
  then have q: "p = butlast p @ [last p]" by simp
  from assms ne obtain d m where d: "realpath (Dir m0) (butlast p) = Inr d"
    and m: "lookup (Dir m0) d = Some (Dir m)" and l: "last p \<noteq> ''..''"
    and nd: "\<forall>m'. m (last p) \<noteq> Some (Dir m')"
    and r2: "r2 = put (Dir m0) (d @ [last p]) (File b)"
    by (auto simp: write_bytes_def split: sum.splits option.splits fsnode.splits if_splits)
  have old: "lookup (Dir m0) (d @ [last p]) = None \<or> (\<exists>b. lookup (Dir m0) (d @ [last p]) = Some (File b))"
  proof (cases "m (last p)")
    case None
    then show ?thesis using m by (simp add: lookup_append)
  next
    case (Some a)
    then show ?thesis using m nd by (cases a) (auto simp: lookup_append)
  qed
  have "realpath r2 (butlast p) = Inr d"
    using realpath_from_put[OF old] d unfolding realpath_def r2 by simp
  moreover from lookup_put_at[OF m] have
    "lookup r2 d = Some (Dir (m(last p \<mapsto> File b)))" "lookup r2 (d @ [last p]) = Some (File b)"
    unfolding r2 by auto
  ultimately have "realpath r2 p = Inr (d @ [last p])"
    unfolding realpath_def using realpath_from_snoc[of r2 "[]" "butlast p" "last p"] q l
    by simp
  then show ?thesis using \<open>lookup r2 (d @ [last p]) = Some (File b)\<close> put_is_dir r2
    by (auto simp: stat_def)
qed


lemma os_mkdir_Dir: "os_mkdir (Dir m0) p = Inr r \<Longrightarrow> \<exists>m. r = Dir m"
  using put_is_dir by (auto simp: os_mkdir_def split: sum.splits option.splits fsnode.splits if_splits)

lemma mkdir_parents_Dir: "mkdir_parents root p = Inr r \<Longrightarrow> \<exists>m0. root = Dir m0 \<Longrightarrow> \<exists>m. r = Dir m"
proof (induction root p arbitrary: r rule: mkdir_parents.induct)
  case (1 root p)
  from "1.prems"(2) obtain m0 where root: "root = Dir m0" by blast
  show ?case
  proof (cases "os_mkdir root p")
    case (Inr r')
    then show ?thesis using "1.prems" os_mkdir_Dir root
      by (subst (asm) mkdir_parents.simps) auto
  next
    case (Inl e)
    show ?thesis
    proof (cases "e = FileNotFoundError \<and> p \<noteq> []")
      case False
      then show ?thesis using "1.prems" Inl
        by (subst (asm) mkdir_parents.simps) (auto split: if_splits)
    next
      case True
      then obtain r1 where r1: "mkdir_parents root (butlast p) = Inr r1"
        using "1.prems"(1) Inl by (subst (asm) mkdir_parents.simps) (auto split: sum.splits)
      from "1.IH"[OF Inl _ _ r1 "1.prems"(2)] True obtain m1 where m1: "r1 = Dir m1" by auto
      show ?thesis using "1.prems"(1) Inl True r1 m1 os_mkdir_Dir[of m1 p]
        by (subst (asm) mkdir_parents.simps) (auto split: sum.splits if_splits)
    qed
  qed
qed

lemma download_twice:
  assumes "download_binary E url p w = (Inr True, w1)"
  shows "\<exists>status content. http_get E (requests w) url = Response status content \<and>
           requests w1 = requests w @ [url] \<and>
           stat (Dir (fs w1)) p = Some (File content)"
proof -
  from assms obtain r1 status content r2 where
    g: "http_get E (requests w) url = Response status content"
    and wr: "write_bytes r1 p content = Inr r2"
    and ep: "ensure_parent p (Dir (fs w)) = Inr r1"
    and w1: "w1 = w\<lparr>fs := entries r2, requests := requests w @ [url]\<rparr>"
    by (auto simp: download_binary_def Let_def split: sum.splits if_splits response.splits)
  from mkdir_parents_Dir[OF ep[unfolded ensure_parent_def]] obtain m1 where "r1 = Dir m1" by auto
  with write_then_stat[of m1 p content r2] wr
  have "stat r2 p = Some (File content)" "\<exists>m. r2 = Dir m" by auto
  then show ?thesis using g w1 by (auto simp: entries_def)
qed

lemma download_serving_fresh:
  "download_binary (serving body) url [''assets'', name] empty_world =
     (if name = ''..'' then (Inr False, \<lparr>fs = [''assets'' \<mapsto> Dir Map.empty], requests = []\<rparr>)
      else (Inr True, \<lparr>fs = [''assets'' \<mapsto> Dir [name \<mapsto> File body]], requests = [url]\<rparr>))"
  by (simp add: download_binary_def serving_def empty_world_def ensure_parent_def os_mkdir_def
      realpath_def mkdir_parents.simps is_dir_def stat_def write_bytes_def st_size_def entries_def)

text \<open>
  C4 (amended). When the destination exists as a file of non-zero size,
  \<^verbatim>\<open>_download_binary\<close> returns \<open>False\<close>, makes no request and leaves the file system
  as it is. When a call returns \<open>True\<close>, it has made exactly one request and the
  destination holds the body received; if that body is not empty, a second call (for any
  URL) with the same destination returns \<open>False\<close>, makes no further request and changes
  nothing.
\<close>

theorem download_binary_keeps_existing:
  "(stat (Dir (fs w)) p = Some (File b) \<and> b \<noteq> [] \<longrightarrow>
      download_binary E url p w = (Inr False, w)) \<and>
   (download_binary E url p w = (Inr True, w1) \<longrightarrow>
      (\<exists>status content.
         http_get E (requests w) url = Response status content \<and>
         requests w1 = requests w @ [url] \<and>
         stat (Dir (fs w1)) p = Some (File content) \<and>
         (content \<noteq> [] \<longrightarrow> download_binary E url' p w1 = (Inr False, w1))))"
proof (intro conjI impI)
  assume "stat (Dir (fs w)) p = Some (File b) \<and> b \<noteq> []"
  then show "download_binary E url p w = (Inr False, w)"
    by (simp add: download_existing)
next
  assume "download_binary E url p w = (Inr True, w1)"
  from download_twice[OF this] obtain status content where
    c: "http_get E (requests w) url = Response status content"
       "requests w1 = requests w @ [url]"
       "stat (Dir (fs w1)) p = Some (File content)"
    by blast
  have "content \<noteq> [] \<longrightarrow> download_binary E url' p w1 = (Inr False, w1)"
    using download_existing[OF c(3)] by simp
  with c show "\<exists>status content.
         http_get E (requests w) url = Response status content \<and>
         requests w1 = requests w @ [url] \<and>
         stat (Dir (fs w1)) p = Some (File content) \<and>
         (content \<noteq> [] \<longrightarrow> download_binary E url' p w1 = (Inr False, w1))"
    by blast
qed

theorem download_binary_keeps_existing_witness:
  "download_binary (serving ''abc'') ''http://h/a.png'' [''assets'', ''a.png''] empty_world =
     (Inr True, \<lparr>fs = [''assets'' \<mapsto> Dir [''a.png'' \<mapsto> File ''abc'']], requests = [''http://h/a.png'']\<rparr>) \<and>
   download_binary (serving ''abc'') ''http://h/a.png'' [''assets'', ''a.png'']
       \<lparr>fs = [''assets'' \<mapsto> Dir [''a.png'' \<mapsto> File ''abc'']], requests = [''http://h/a.png'']\<rparr> =
     (Inr False, \<lparr>fs = [''assets'' \<mapsto> Dir [''a.png'' \<mapsto> File ''abc'']], requests = [''http://h/a.png'']\<rparr>)"
proof -
  let ?w1 = "\<lparr>fs = [''assets'' \<mapsto> Dir [''a.png'' \<mapsto> File ''abc'']], requests = [''http://h/a.png'']\<rparr>"
  have first: "download_binary (serving ''abc'') ''http://h/a.png'' [''assets'', ''a.png''] empty_world =
     (Inr True, ?w1)"
    by (simp add: download_serving_fresh)
  have h: "stat (Dir (fs ?w1)) [''assets'', ''a.png''] = Some (File ''abc'') \<and> ''abc'' \<noteq> []"
    by (simp add: stat_def realpath_def)
  from download_binary_keeps_existing[of ?w1 "[''assets'', ''a.png'']" "''abc''" "serving ''abc''"
      "''http://h/a.png''" ?w1 "''http://h/a.png''"] h first
  show ?thesis by blast
qed

text \<open>
  C4 as stated fails: a server that answers with an empty body makes the first call
  write an empty file, which the second call does not accept as present; both calls
  fetch and both return \<open>True\<close>.
\<close>

theorem download_binary_twice_counterexample:
  "(let E = serving [];
        (r1, w1) = download_binary E ''http://h/a.png'' [''assets'', ''a.png''] empty_world;
        (r2, w2) = download_binary E ''http://h/a.png'' [''assets'', ''a.png''] w1
    in r1 = Inr True \<and> r2 = Inr True \<and> requests w2 = [''http://h/a.png'', ''http://h/a.png''])"
  by (simp add: download_serving_fresh)
     (simp add: download_binary_def serving_def ensure_parent_def os_mkdir_def
      realpath_def mkdir_parents.simps is_dir_def stat_def write_bytes_def st_size_def entries_def)

section \<open>Document trees\<close>

subsection \<open>Generic facts about the tree functions\<close>

lemma none_sat_append [simp]: "none_sat P (xs @ ys) = (none_sat P xs \<and> none_sat P ys)"
  by (induction P xs rule: none_sat.induct) auto

lemma tags_of_append [simp]: "tags_of (xs @ ys) = tags_of xs \<union> tags_of ys"
  by (induction xs rule: tags_of.induct) auto

lemma count_tag_append [simp]: "count_tag nm (xs @ ys) = count_tag nm xs + count_tag nm ys"
  by (induction nm xs rule: count_tag.induct) auto

lemma find_first_append:
  "find_first nm (xs @ ys) = (case find_first nm xs of Some e \<Rightarrow> Some e | None \<Rightarrow> find_first nm ys)"
  by (induction nm xs rule: find_first.induct) (auto split: option.splits)

lemma strings_remove_all: "list_all is_string cs \<Longrightarrow> remove_all P cs = cs"
  by (induction P cs rule: remove_all.induct) auto

lemma strings_unwrap_all: "list_all is_string cs \<Longrightarrow> unwrap_all nm cs = cs"
  by (induction nm cs rule: unwrap_all.induct) auto

lemma strings_edit_first: "list_all is_string cs \<Longrightarrow> edit_first nm f cs = None"
  by (induction nm f cs rule: edit_first.induct) auto

lemma strings_tags_of: "list_all is_string cs \<Longrightarrow> tags_of cs = {}"
  by (induction cs rule: tags_of.induct) auto

lemma remove_all_id: "none_sat P ns \<Longrightarrow> remove_all P ns = ns"
  by (induction P ns rule: remove_all.induct) auto

lemma unwrap_all_id: "nm \<notin> tags_of ns \<Longrightarrow> unwrap_all nm ns = ns"
  by (induction nm ns rule: unwrap_all.induct) auto

lemma edit_first_None: "nm \<notin> tags_of ns \<Longrightarrow> edit_first nm f ns = None"
  by (induction nm f ns rule: edit_first.induct) auto

lemma find_first_None: "nm \<notin> tags_of ns \<Longrightarrow> find_first nm ns = None"
  by (induction nm ns rule: find_first.induct) auto

lemma count_tag_0: "count_tag nm ns = 0 \<longleftrightarrow> nm \<notin> tags_of ns"
  by (induction nm ns rule: count_tag.induct) auto

lemma tags_remove_all: "tags_of (remove_all P ns) \<subseteq> tags_of ns"
  by (induction P ns rule: remove_all.induct) auto

lemma tags_unwrap_all: "tags_of (unwrap_all nm ns) = tags_of ns - {nm}"
  by (induction nm ns rule: unwrap_all.induct) auto

lemma tags_edit_first:
  "edit_first nm f ns = Some ns' \<Longrightarrow> (\<And>e. tags_of (f e) \<subseteq> tags_of [e]) \<Longrightarrow> tags_of ns' \<subseteq> tags_of ns"
proof (induction nm f ns arbitrary: ns' rule: edit_first.induct)
  case (2 nm f t a cs ns)
  show ?case
  proof (cases "t = nm")
    case True
    then show ?thesis using 2(3) 2(4)[of "Element t a cs"] by auto
  next
    case False
    then show ?thesis using 2 by (auto split: option.splits)
  qed
qed auto

lemma count_edit_first_remove:
  "edit_first nm (\<lambda>n. []) ns = Some ns' \<Longrightarrow> count_tag nm ns' < count_tag nm ns"
  by (induction nm "\<lambda>n::node. []::node list" ns arbitrary: ns' rule: edit_first.induct)
     (fastforce split: option.splits if_splits)+


subsection \<open>Predicates that survive the later steps\<close>

lemma bound_step:
  assumes "\<And>t a cs. D (Element t a cs) \<Longrightarrow> t \<in> set raw_tags"
    and "\<not> (misparsed (Element t a cs) \<or> D (Element t a cs))"
    and "\<not> list_all is_string cs"
  shows "\<not> (misparsed (Element t a cs') \<or> D (Element t a cs'))"
  using assms by auto

lemma keep_remove_all:
  assumes b: "\<And>t a cs. D (Element t a cs) \<Longrightarrow> t \<in> set raw_tags"
  shows "none_sat (\<lambda>n. misparsed n \<or> D n) ns \<Longrightarrow>
         none_sat (\<lambda>n. misparsed n \<or> D n) (remove_all Q ns)"
proof (induction Q ns rule: remove_all.induct)
  case (2 Q t a cs ns)
  show ?case
  proof (cases "list_all is_string cs")
    case True
    then show ?thesis using 2 by (simp add: strings_remove_all)
  next
    case False
    from "2.prems" have "\<not> (misparsed (Element t a cs) \<or> D (Element t a cs))" by simp
    with False b have "\<not> (misparsed (Element t a (remove_all Q cs)) \<or> D (Element t a (remove_all Q cs)))"
      by (rule_tac bound_step) auto
    then show ?thesis using 2 by auto
  qed
qed auto

lemma established_remove_all:
  assumes b: "\<And>t a cs. D (Element t a cs) \<Longrightarrow> t \<in> set raw_tags"
  shows "none_sat misparsed ns \<Longrightarrow> none_sat (\<lambda>n. misparsed n \<or> D n) (remove_all D ns)"
  using b
proof (induction D ns rule: remove_all.induct)
  case (2 D t a cs ns)
  show ?case
  proof (cases "D (Element t a cs)")
    case True
    then show ?thesis using 2 by simp
  next
    case nd: False
    show ?thesis
    proof (cases "list_all is_string cs")
      case True
      then show ?thesis using 2 nd by (simp add: strings_remove_all)
    next
      case False
      from "2.prems" nd have "\<not> (misparsed (Element t a cs) \<or> D (Element t a cs))" by simp
      with False "2.prems"(2)
      have "\<not> (misparsed (Element t a (remove_all D cs)) \<or> D (Element t a (remove_all D cs)))"
        by (rule_tac bound_step) auto
      then show ?thesis using 2 nd by auto
    qed
  qed
qed auto

lemma keep_unwrap_all:
  assumes b: "\<And>t a cs. D (Element t a cs) \<Longrightarrow> t \<in> set raw_tags"
  shows "none_sat (\<lambda>n. misparsed n \<or> D n) ns \<Longrightarrow>
         none_sat (\<lambda>n. misparsed n \<or> D n) (unwrap_all nm ns)"
proof (induction nm ns rule: unwrap_all.induct)
  case (2 nm t a cs ns)
  show ?case
  proof (cases "list_all is_string cs")
    case True
    then show ?thesis using 2 by (simp add: strings_unwrap_all)
  next
    case False
    from "2.prems" have "\<not> (misparsed (Element t a cs) \<or> D (Element t a cs))" by simp
    with False b have "\<not> (misparsed (Element t a (unwrap_all nm cs)) \<or> D (Element t a (unwrap_all nm cs)))"
      by (rule_tac bound_step) auto
    then show ?thesis using 2 by auto
  qed
qed auto

lemma keep_edit_first:
  assumes b: "\<And>t a cs. D (Element t a cs) \<Longrightarrow> t \<in> set raw_tags"
    and f: "\<And>a cs. none_sat (\<lambda>n. misparsed n \<or> D n) cs \<Longrightarrow>
                 none_sat (\<lambda>n. misparsed n \<or> D n) (f (Element nm a cs))"
  shows "edit_first nm f ns = Some ns' \<Longrightarrow> none_sat (\<lambda>n. misparsed n \<or> D n) ns \<Longrightarrow>
         none_sat (\<lambda>n. misparsed n \<or> D n) ns'"
  using f
proof (induction nm f ns arbitrary: ns' rule: edit_first.induct)
  case (2 nm f t a cs ns)
  show ?case
  proof (cases "t = nm")
    case True
    then show ?thesis using "2.prems" by auto
  next
    case ne: False
    show ?thesis
    proof (cases "edit_first nm f cs")
      case None
      then show ?thesis using 2 ne by auto
    next
      case (Some cs')
      then have "\<not> list_all is_string cs" using strings_edit_first by fastforce
      moreover from "2.prems" have "\<not> (misparsed (Element t a cs) \<or> D (Element t a cs))" by simp
      ultimately have "\<not> (misparsed (Element t a cs') \<or> D (Element t a cs'))"
        using b by (rule_tac bound_step) auto
      then show ?thesis using 2 ne Some by auto
    qed
  qed
qed auto


subsection \<open>The language attribute and the marker\<close>

lemma find_first_Element: "find_first nm ns = Some e \<Longrightarrow> \<exists>a cs. e = Element nm a cs"
  by (induction nm ns rule: find_first.induct) (auto split: option.splits if_splits)

lemma find_None_edit_None: "find_first nm ns = None \<Longrightarrow> edit_first nm f ns = None"
  by (induction nm f ns rule: edit_first.induct) (auto split: option.splits if_splits)

lemma get_set_attr [simp]: "get_attr (set_attr a k v) k = Some v"
  by (induction a k v rule: set_attr.induct) (auto simp: get_attr_def)

lemma find_edit_lang:
  "find_first nm ns = Some (Element t a cs) \<Longrightarrow>
   \<exists>ns'. edit_first nm with_lang ns = Some ns' \<and>
         find_first nm ns' = Some (Element t (set_attr a ''lang'' ''en'') cs)"
proof (induction nm ns rule: find_first.induct)
  case (2 nm t' a' cs' ns)
  show ?case
  proof (cases "t' = nm")
    case True
    then show ?thesis using 2 by auto
  next
    case ne: False
    show ?thesis
    proof (cases "find_first nm cs'")
      case None
      then show ?thesis using 2 ne by (auto simp: find_None_edit_None)
    next
      case (Some e)
      then show ?thesis using 2 ne by auto
    qed
  qed
qed auto

lemma ensure_lang_ok: "lang_ok (ensure_lang s)"
proof (cases "find_first ''html'' s")
  case None
  then show ?thesis by (simp add: ensure_lang_def lang_ok_def)
next
  case (Some e)
  then obtain a cs where e: "e = Element ''html'' a cs" using find_first_Element by blast
  show ?thesis
  proof (cases "get_attr a ''lang'' = None \<or> get_attr a ''lang'' = Some []")
    case True
    from find_edit_lang[OF Some[unfolded e]] obtain ns' where
      "edit_first ''html'' with_lang s = Some ns'"
      "find_first ''html'' ns' = Some (Element ''html'' (set_attr a ''lang'' ''en'') cs)" by blast
    then show ?thesis using Some e True by (simp add: ensure_lang_def lang_ok_def)
  next
    case False
    then show ?thesis using Some e by (auto simp: ensure_lang_def lang_ok_def)
  qed
qed

lemma ensure_lang_id: "lang_ok s \<Longrightarrow> ensure_lang s = s"
  by (auto simp: ensure_lang_def lang_ok_def split: option.splits node.splits)

lemma find_attrs_marker:
  "edit_first nm' with_marker ns = Some ns' \<Longrightarrow>
   map_option node_attrs (find_first nm ns') = map_option node_attrs (find_first nm ns)"
proof (induction nm' with_marker ns arbitrary: ns' rule: edit_first.induct)
  case (2 nm' t a cs ns)
  show ?case
  proof (cases "t = nm'")
    case True
    then show ?thesis using "2.prems"
      by (auto simp: find_first_append marker_def split: option.splits)
  next
    case False
    then show ?thesis using 2 by (auto split: option.splits)
  qed
qed auto

lemma add_marker_lang_ok: "lang_ok s \<Longrightarrow> lang_ok (add_marker s)"
proof (cases "edit_first ''head'' with_marker s")
  case None
  then show "lang_ok s \<Longrightarrow> ?thesis" by (simp add: add_marker_def)
next
  case (Some s')
  from find_attrs_marker[OF Some, of "''html''"]
  show "lang_ok s \<Longrightarrow> ?thesis" using Some
    by (auto simp: add_marker_def lang_ok_def split: option.splits)
qed


subsection \<open>One pass, and a second pass over its result\<close>

lemma none_sat_mono: "(\<And>n. P n \<Longrightarrow> Q n) \<Longrightarrow> none_sat Q ns \<Longrightarrow> none_sat P ns"
  by (induction P ns rule: none_sat.induct) auto

lemma drop_script_bound: "drop_script (Element t a cs) \<Longrightarrow> t \<in> set raw_tags"
  by (simp add: raw_tags_def)

lemma drop_link_bound: "drop_link (Element t a cs) \<Longrightarrow> t \<in> set raw_tags"
  by (simp add: raw_tags_def)

lemma drop_style_bound: "drop_style (Element t a cs) \<Longrightarrow> t \<in> set raw_tags"
  by (simp add: raw_tags_def)

lemma keep_remove_base:
  assumes "\<And>t a cs. D (Element t a cs) \<Longrightarrow> t \<in> set raw_tags"
    and "none_sat (\<lambda>n. misparsed n \<or> D n) s"
  shows "none_sat (\<lambda>n. misparsed n \<or> D n) (remove_base s)"
proof (cases "edit_first ''base'' (\<lambda>n. []) s")
  case None
  then show ?thesis using assms(2) by (simp add: remove_base_def)
next
  case (Some s')
  from keep_edit_first[of D "\<lambda>n. []", OF assms(1) _ Some assms(2)]
  show ?thesis using Some by (simp add: remove_base_def)
qed

lemma keep_unwrap_custom:
  assumes "\<And>t a cs. D (Element t a cs) \<Longrightarrow> t \<in> set raw_tags"
    and "none_sat (\<lambda>n. misparsed n \<or> D n) s"
  shows "none_sat (\<lambda>n. misparsed n \<or> D n) (unwrap_custom s)"
  using assms(2) by (simp add: unwrap_custom_def custom_elements_def keep_unwrap_all[OF assms(1)])

lemma keep_ensure_lang:
  assumes b: "\<And>t a cs. D (Element t a cs) \<Longrightarrow> t \<in> set raw_tags"
    and "none_sat (\<lambda>n. misparsed n \<or> D n) s"
  shows "none_sat (\<lambda>n. misparsed n \<or> D n) (ensure_lang s)"
proof (cases "edit_first ''html'' with_lang s")
  case None
  then show ?thesis using assms(2)
    by (auto simp: ensure_lang_def split: option.splits node.splits)
next
  case (Some s')
  have "\<And>a cs. none_sat (\<lambda>n. misparsed n \<or> D n) cs \<Longrightarrow>
          none_sat (\<lambda>n. misparsed n \<or> D n) (with_lang (Element ''html'' a cs))"
    using b by (auto simp: raw_tags_def)
  from keep_edit_first[of D with_lang, OF b this Some assms(2)]
  show ?thesis using Some assms(2)
    by (auto simp: ensure_lang_def split: option.splits node.splits)
qed

lemma keep_add_marker:
  assumes b: "\<And>t a cs. D (Element t a cs) \<Longrightarrow> t \<in> set raw_tags"
    and "none_sat (\<lambda>n. misparsed n \<or> D n) s"
  shows "none_sat (\<lambda>n. misparsed n \<or> D n) (add_marker s)"
proof (cases "edit_first ''head'' with_marker s")
  case None
  then show ?thesis using assms(2) by (simp add: add_marker_def)
next
  case (Some s')
  have "\<And>a cs. none_sat (\<lambda>n. misparsed n \<or> D n) cs \<Longrightarrow>
          none_sat (\<lambda>n. misparsed n \<or> D n) (with_marker (Element ''head'' a cs))"
    using b by (auto simp: raw_tags_def marker_def)
  from keep_edit_first[of D with_marker, OF b this Some assms(2)]
  show ?thesis using Some by (simp add: add_marker_def)
qed

lemma tags_remove_base: "tags_of (remove_base s) \<subseteq> tags_of s"
  using tags_edit_first[of "''base''" "\<lambda>n. []" s]
  by (auto simp: remove_base_def split: option.splits)

lemma tags_with_lang: "tags_of (with_lang e) \<subseteq> tags_of [e]"
  by (cases e) auto

lemma tags_with_marker: "tags_of (with_marker e) \<subseteq> tags_of [e]"
  by (cases e) (auto simp: marker_def)

lemma tags_ensure_lang: "tags_of (ensure_lang s) \<subseteq> tags_of s"
  using tags_edit_first[of "''html''" with_lang s, OF _ tags_with_lang]
  by (auto simp: ensure_lang_def split: option.splits node.splits)

lemma tags_add_marker: "tags_of (add_marker s) \<subseteq> tags_of s"
  using tags_edit_first[of "''head''" with_marker s, OF _ tags_with_marker]
  by (auto simp: add_marker_def split: option.splits)

lemma tags_unwrap_custom: "tags_of (unwrap_custom s) = tags_of s - set custom_elements"
  by (auto simp: unwrap_custom_def custom_elements_def tags_unwrap_all)

lemma unwrap_custom_id: "tags_of s \<inter> set custom_elements = {} \<Longrightarrow> unwrap_custom s = s"
  by (simp add: unwrap_custom_def custom_elements_def unwrap_all_id)

lemma edit_None_tags: "edit_first nm f ns = None \<Longrightarrow> nm \<notin> tags_of ns"
  by (induction nm f ns rule: edit_first.induct) (auto split: option.splits if_splits)

lemma remove_base_no_base:
  assumes "count_tag ''base'' s \<le> 1"
  shows "''base'' \<notin> tags_of (remove_base s)"
proof (cases "edit_first ''base'' (\<lambda>n. []) s")
  case None
  then show ?thesis by (simp add: remove_base_def edit_None_tags)
next
  case (Some s')
  from count_edit_first_remove[OF Some] assms have "count_tag ''base'' s' = 0" by simp
  then show ?thesis using Some by (simp add: remove_base_def count_tag_0)
qed


lemma remove_base_id: "''base'' \<notin> tags_of s \<Longrightarrow> remove_base s = s"
  by (simp add: remove_base_def edit_first_None)

lemma strip_soup_shape:
  assumes wp: "well_parsed s"
  shows "count_tag ''base'' s \<le> 1 \<longrightarrow> ''base'' \<notin> tags_of (strip_soup s)"
    and "tags_of (strip_soup s) \<inter> set custom_elements = {}"
    and "none_sat drop_script (strip_soup s)"
    and "none_sat drop_link (strip_soup s)"
    and "none_sat drop_style (strip_soup s)"
    and "lang_ok (strip_soup s)"
    and "well_parsed (strip_soup s)"
proof -
  let ?b = "remove_base s"
  let ?c = "remove_all drop_script ?b"
  let ?k = "remove_all drop_link ?c"
  let ?y = "remove_all drop_style ?k"
  let ?u = "unwrap_custom ?y"
  let ?l = "ensure_lang ?u"
  have eq: "strip_soup s = add_marker ?l" by (simp add: strip_soup_def)
  have F: "\<And>t a cs. False \<Longrightarrow> t \<in> set raw_tags" by simp
  have wp0: "none_sat (\<lambda>n. misparsed n \<or> False) s" using wp by (simp add: well_parsed_def)
  have wb: "none_sat misparsed ?b" using keep_remove_base[of "\<lambda>n. False", OF F wp0] by simp
  have sc: "none_sat (\<lambda>n. misparsed n \<or> drop_script n) ?c"
    by (rule established_remove_all[OF drop_script_bound wb])
  then have wc: "none_sat misparsed ?c" by (rule none_sat_mono[rotated]) simp
  have lk: "none_sat (\<lambda>n. misparsed n \<or> drop_link n) ?k"
    by (rule established_remove_all[OF drop_link_bound wc])
  then have wk: "none_sat misparsed ?k" by (rule none_sat_mono[rotated]) simp
  have sy: "none_sat (\<lambda>n. misparsed n \<or> drop_style n) ?y"
    by (rule established_remove_all[OF drop_style_bound wk])
  have through: "none_sat (\<lambda>n. misparsed n \<or> D n) (add_marker (ensure_lang (unwrap_custom x)))"
    if "\<And>t a cs. D (Element t a cs) \<Longrightarrow> t \<in> set raw_tags" "none_sat (\<lambda>n. misparsed n \<or> D n) x"
    for D x
    using that by (intro keep_add_marker keep_ensure_lang keep_unwrap_custom) auto
  have "none_sat (\<lambda>n. misparsed n \<or> drop_script n) (strip_soup s)"
    unfolding eq
    by (intro through keep_remove_all drop_script_bound sc)
  then show "none_sat drop_script (strip_soup s)" by (rule none_sat_mono[rotated]) simp
  have "none_sat (\<lambda>n. misparsed n \<or> drop_link n) (strip_soup s)"
    unfolding eq
    by (intro through keep_remove_all drop_link_bound lk)
  then show "none_sat drop_link (strip_soup s)" by (rule none_sat_mono[rotated]) simp
  have st: "none_sat (\<lambda>n. misparsed n \<or> drop_style n) (strip_soup s)"
    unfolding eq
    by (intro through drop_style_bound sy)
  then show "none_sat drop_style (strip_soup s)" by (rule none_sat_mono[rotated]) simp
  from st show "well_parsed (strip_soup s)"
    unfolding well_parsed_def by (rule none_sat_mono[rotated]) simp
  have "tags_of (strip_soup s) \<subseteq> tags_of ?u"
    unfolding eq using tags_add_marker tags_ensure_lang by blast
  moreover have "tags_of ?u \<subseteq> tags_of ?b - set custom_elements"
    using tags_remove_all[of drop_style ?k] tags_remove_all[of drop_link ?c]
      tags_remove_all[of drop_script ?b]
    by (auto simp: tags_unwrap_custom)
  ultimately show "count_tag ''base'' s \<le> 1 \<longrightarrow> ''base'' \<notin> tags_of (strip_soup s)"
    and "tags_of (strip_soup s) \<inter> set custom_elements = {}"
    using remove_base_no_base[of s] by auto
  show "lang_ok (strip_soup s)"
    unfolding eq by (intro add_marker_lang_ok ensure_lang_ok)
qed

lemma strip_soup_twice:
  assumes "well_parsed s" "count_tag ''base'' s \<le> 1"
  shows "strip_soup (strip_soup s) = add_marker (strip_soup s)"
  using strip_soup_shape[OF assms(1)] assms(2)
  by (simp add: strip_soup_def[of "strip_soup s"] remove_base_id remove_all_id unwrap_custom_id
      ensure_lang_id)


subsection \<open>Which elements are still there\<close>

lemma occurs_append [simp]: "occurs e (xs @ ys) = (occurs e xs \<or> occurs e ys)"
  by (induction e xs rule: occurs.induct) auto

lemma strings_occurs: "list_all is_string cs \<Longrightarrow> \<not> occurs e cs"
  by (induction e cs rule: occurs.induct) auto

lemma none_sat_occurs: "none_sat P ns \<Longrightarrow> occurs (Element t a cs) ns \<Longrightarrow> \<not> P (Element t a cs)"
  by (induction P ns rule: none_sat.induct) auto

lemma occurs_Element: "occurs e ns \<Longrightarrow> \<exists>t a cs. e = Element t a cs"
  by (induction e ns rule: occurs.induct) auto

lemma survive_remove_all:
  assumes "\<And>t a cs. Q (Element t a cs) \<Longrightarrow> t \<in> set raw_tags"
    and "list_all is_string cs" "\<not> Q (Element t a cs)"
    and "none_sat misparsed ns" "occurs (Element t a cs) ns"
  shows "occurs (Element t a cs) (remove_all Q ns)"
  using assms
proof (induction Q ns rule: remove_all.induct)
  case (2 Q t' a' cs' ns)
  show ?case
  proof (cases "Q (Element t' a' cs')")
    case True
    with "2.prems"(1,4) have "list_all is_string cs'" by auto
    then have "\<not> occurs (Element t a cs) cs'" by (rule strings_occurs)
    with True "2.prems" have "occurs (Element t a cs) ns" by auto
    then show ?thesis using True 2 by auto
  next
    case False
    show ?thesis
    proof (cases "Element t a cs = Element t' a' cs'")
      case True
      then show ?thesis using False "2.prems"(2) by (simp add: strings_remove_all)
    next
      case ne: False
      then show ?thesis using False 2 by auto
    qed
  qed
qed auto

lemma survive_unwrap_all:
  assumes "list_all is_string cs" "t \<noteq> nm" "occurs (Element t a cs) ns"
  shows "occurs (Element t a cs) (unwrap_all nm ns)"
  using assms
proof (induction nm ns rule: unwrap_all.induct)
  case (2 nm t' a' cs' ns)
  show ?case
  proof (cases "Element t a cs = Element t' a' cs'")
    case True
    then show ?thesis using "2.prems" by (simp add: strings_unwrap_all)
  next
    case False
    then show ?thesis using 2 by auto
  qed
qed auto

lemma survive_edit_first:
  assumes "list_all is_string cs" "t \<noteq> nm"
    and "\<And>a' cs'. occurs (Element nm a' cs') ns \<Longrightarrow> occurs (Element t a cs) cs' \<Longrightarrow>
            occurs (Element t a cs) (f (Element nm a' cs'))"
    and "edit_first nm f ns = Some ns'" "occurs (Element t a cs) ns"
  shows "occurs (Element t a cs) ns'"
  using assms
proof (induction nm f ns arbitrary: ns' rule: edit_first.induct)
  case (2 nm f t' a' cs' ns)
  show ?case
  proof (cases "t' = nm")
    case True
    then show ?thesis using "2.prems" by auto
  next
    case ne: False
    show ?thesis
    proof (cases "edit_first nm f cs'")
      case None
      then obtain ns1 where ns1: "edit_first nm f ns = Some ns1" "ns' = Element t' a' cs' # ns1"
        using "2.prems"(4) ne by auto
      have "occurs (Element t a cs) ns \<Longrightarrow> occurs (Element t a cs) ns1"
        using "2.IH"(2)[OF ne None "2.prems"(1,2) _ ns1(1)] "2.prems"(3) by auto
      then show ?thesis using ns1 "2.prems"(5) by auto
    next
      case (Some cs1)
      then have ns': "ns' = Element t' a' cs1 # ns" using "2.prems"(4) ne by auto
      from Some have nstr: "\<not> list_all is_string cs'" using strings_edit_first by fastforce
      have "occurs (Element t a cs) cs' \<Longrightarrow> occurs (Element t a cs) cs1"
        using "2.IH"(1)[OF ne "2.prems"(1,2) _ Some] "2.prems"(3) by auto
      moreover have "Element t a cs \<noteq> Element t' a' cs'" using nstr "2.prems"(1) by auto
      ultimately show ?thesis using ns' "2.prems"(5) by auto
    qed
  qed
qed auto


section \<open>The runtime stripper\<close>

text \<open>
  C9. \<^verbatim>\<open>process_file\<close> changes the world only when \<open>in_place\<close> is set and the stripped
  text differs from the text read: with \<open>in_place\<close> unset the world is returned as it
  was, and whenever the function returns, the path is the one given and the flag is true
  exactly when \<^verbatim>\<open>strip_html\<close> of the text read differs from that text.
\<close>

theorem process_file_writes_only_when_changed:
  "process_file L path in_place w = (res, w') \<Longrightarrow>
     (\<not> in_place \<longrightarrow> w' = w) \<and>
     (w' \<noteq> w \<longrightarrow> in_place \<and>
        (\<exists>original. read_text L (Dir (fs w)) path = Inr original \<and> strip_html L original \<noteq> original)) \<and>
     (\<forall>p changed. res = Inr (p, changed) \<longrightarrow>
        p = path \<and>
        (\<exists>original. read_text L (Dir (fs w)) path = Inr original \<and>
           changed = (strip_html L original \<noteq> original)))"
  by (auto simp: process_file_def Let_def split: sum.splits if_splits)

theorem process_file_writes_only_when_changed_witness:
  "process_file plain_lib [''a.html''] False \<lparr>fs = [''a.html'' \<mapsto> File ''hi''], requests = []\<rparr> =
     (Inr ([''a.html''], False), \<lparr>fs = [''a.html'' \<mapsto> File ''hi''], requests = []\<rparr>) \<and>
   read_text plain_lib (Dir [''a.html'' \<mapsto> File ''hi'']) [''a.html''] = Inr ''hi'' \<and>
   strip_html plain_lib ''hi'' = ''hi''"
proof -
  let ?w = "\<lparr>fs = [''a.html'' \<mapsto> File ''hi''], requests = []\<rparr>"
  obtain res w' where r: "process_file plain_lib [''a.html''] False ?w = (res, w')"
    by (cases "process_file plain_lib [''a.html''] False ?w")
  have rd: "read_text plain_lib (Dir [''a.html'' \<mapsto> File ''hi'']) [''a.html''] = Inr ''hi''"
    by (simp add: read_text_def realpath_def plain_lib_def)
  have st: "strip_html plain_lib ''hi'' = ''hi''"
    by (simp add: strip_html_def plain_lib_def strip_soup_def remove_base_def unwrap_custom_def
        custom_elements_def ensure_lang_def add_marker_def)
  from process_file_writes_only_when_changed[OF r] have "w' = ?w" by simp
  moreover have "res = Inr ([''a.html''], False)"
    using r rd st by (simp add: process_file_def)
  ultimately show ?thesis using r rd st by simp
qed


lemma well_parsed_steps:
  assumes "well_parsed s"
  shows "none_sat misparsed (remove_base s)"
    and "none_sat misparsed (remove_all P (remove_base s))"
    and "none_sat misparsed (remove_all Q (remove_all P (remove_base s)))"
    and "none_sat misparsed (remove_all R (remove_all Q (remove_all P (remove_base s))))"
proof -
  have F: "\<And>t a cs. False \<Longrightarrow> t \<in> set raw_tags" by simp
  have wp0: "none_sat (\<lambda>n. misparsed n \<or> False) s" using assms by (simp add: well_parsed_def)
  from keep_remove_base[of "\<lambda>n. False", OF F wp0]
  have b: "none_sat (\<lambda>n. misparsed n \<or> False) (remove_base s)" .
  from keep_remove_all[of "\<lambda>n. False", OF F b]
  have c: "none_sat (\<lambda>n. misparsed n \<or> False) (remove_all P (remove_base s))" .
  from keep_remove_all[of "\<lambda>n. False", OF F c]
  have k: "none_sat (\<lambda>n. misparsed n \<or> False) (remove_all Q (remove_all P (remove_base s)))" .
  from keep_remove_all[of "\<lambda>n. False", OF F k]
  have y: "none_sat (\<lambda>n. misparsed n \<or> False)
             (remove_all R (remove_all Q (remove_all P (remove_base s))))" .
  from b c k y show "none_sat misparsed (remove_base s)"
    and "none_sat misparsed (remove_all P (remove_base s))"
    and "none_sat misparsed (remove_all Q (remove_all P (remove_base s)))"
    and "none_sat misparsed (remove_all R (remove_all Q (remove_all P (remove_base s))))"
    by simp_all
qed

lemma survive_remove_base:
  assumes "well_parsed s" "list_all is_string cs" "t \<noteq> ''base''" "occurs (Element t a cs) s"
  shows "occurs (Element t a cs) (remove_base s)"
proof (cases "edit_first ''base'' (\<lambda>n. []) s")
  case None
  then show ?thesis using assms by (simp add: remove_base_def)
next
  case (Some s')
  have "\<And>a' cs'. occurs (Element ''base'' a' cs') s \<Longrightarrow> occurs (Element t a cs) cs' \<Longrightarrow>
           occurs (Element t a cs) []"
  proof -
    fix a' cs' assume o: "occurs (Element ''base'' a' cs') s" and i: "occurs (Element t a cs) cs'"
    from none_sat_occurs[OF assms(1)[unfolded well_parsed_def] o]
    have "list_all is_string cs'" by (simp add: raw_tags_def)
    with i show "occurs (Element t a cs) []" using strings_occurs by blast
  qed
  from survive_edit_first[of cs t "''base''" s a "\<lambda>n. []", OF assms(2,3) this Some assms(4)]
  show ?thesis using Some by (simp add: remove_base_def)
qed

lemma survive_unwrap_custom:
  assumes "list_all is_string cs" "t \<notin> set custom_elements" "occurs (Element t a cs) s"
  shows "occurs (Element t a cs) (unwrap_custom s)"
  using assms by (simp add: unwrap_custom_def custom_elements_def survive_unwrap_all)

lemma survive_ensure_lang:
  assumes "list_all is_string cs" "t \<noteq> ''html''" "occurs (Element t a cs) s"
  shows "occurs (Element t a cs) (ensure_lang s)"
proof (cases "edit_first ''html'' with_lang s")
  case None
  then show ?thesis using assms by (auto simp: ensure_lang_def split: option.splits node.splits)
next
  case (Some s')
  from survive_edit_first[of cs t "''html''" s a with_lang, OF assms(1,2) _ Some assms(3)]
  show ?thesis using Some assms(3) by (auto simp: ensure_lang_def split: option.splits node.splits)
qed

lemma survive_add_marker:
  assumes "list_all is_string cs" "t \<noteq> ''head''" "occurs (Element t a cs) s"
  shows "occurs (Element t a cs) (add_marker s)"
proof (cases "edit_first ''head'' with_marker s")
  case None
  then show ?thesis using assms by (simp add: add_marker_def)
next
  case (Some s')
  from survive_edit_first[of cs t "''head''" s a with_marker, OF assms(1,2) _ Some assms(3)]
  show ?thesis using Some by (simp add: add_marker_def)
qed

lemma style_survives:
  assumes wp: "well_parsed s" and o: "occurs (Element ''style'' a cs) s"
    and nd: "\<not> drop_style (Element ''style'' a cs)"
  shows "occurs (Element ''style'' a cs) (strip_soup s)"
proof -
  from none_sat_occurs[OF wp[unfolded well_parsed_def] o]
  have str: "list_all is_string cs" by (simp add: raw_tags_def)
  note w = well_parsed_steps(1)[OF wp] well_parsed_steps(2)[OF wp, where P=drop_script]
    well_parsed_steps(3)[OF wp, where P=drop_script and Q=drop_link]
  have 1: "occurs (Element ''style'' a cs) (remove_base s)"
    by (rule survive_remove_base[OF wp str _ o]) simp
  have 2: "occurs (Element ''style'' a cs) (remove_all drop_script (remove_base s))"
    by (rule survive_remove_all[where Q=drop_script, OF drop_script_bound str _ w(1) 1]) simp_all
  have 3: "occurs (Element ''style'' a cs)
             (remove_all drop_link (remove_all drop_script (remove_base s)))"
    by (rule survive_remove_all[where Q=drop_link, OF drop_link_bound str _ w(2) 2]) simp_all
  have 4: "occurs (Element ''style'' a cs)
             (remove_all drop_style (remove_all drop_link (remove_all drop_script (remove_base s))))"
    by (rule survive_remove_all[where Q=drop_style, OF drop_style_bound str nd w(3) 3]) simp_all
  show ?thesis unfolding strip_soup_def
    by (intro survive_add_marker survive_ensure_lang survive_unwrap_custom str 4)
       (simp_all add: custom_elements_def)
qed


lemma page_stripped:
  "strip_soup page =
     [Doctype ''html'',
      Element ''html'' [(''lang'', ''en'')]
        [Element ''head'' []
           [Element ''style'' []
              [Text ''@font-face{src:url(//static.wixstatic.com/f.woff)}''],
            marker],
         Element ''body'' [] [Element ''p'' [] [Text ''hi'']]]]"
  by (simp add: page_def strip_soup_def remove_base_def unwrap_custom_def custom_elements_def
      ensure_lang_def add_marker_def get_attr_def remote_data_def is_remote_url_def
      is_wix_remote_def style_text_def WIX_HOST_RE_search_def py_lower_def py_lower_char_def
      startswith_def)


lemmas strip_eval = strip_soup_def remove_base_def unwrap_custom_def custom_elements_def
      ensure_lang_def add_marker_def get_attr_def remote_data_def is_remote_url_def
      is_wix_remote_def style_text_def WIX_HOST_RE_search_def REMOTE_RE_match_def
      py_lower_def py_lower_char_def startswith_def

text \<open>
  C2 (amended). On a parsed document with at most one \<^verbatim>\<open>base\<close> element, a second pass
  of the stripper over the result of the first removes nothing more: it is the first
  result with one more marker comment appended to the head (and the first result itself
  when the document has no head). When the parser reads the printed result back as the
  same tree, \<^verbatim>\<open>strip_html\<close> of \<^verbatim>\<open>strip_html\<close> of a text is the print of that tree
  with the second marker.
\<close>

theorem strip_second_pass:
  "well_parsed s \<Longrightarrow> count_tag ''base'' s \<le> 1 \<Longrightarrow>
     strip_soup (strip_soup s) = add_marker (strip_soup s) \<and>
     (\<forall>L h. parse L h = s \<and> parse L (strip_html L h) = strip_soup s \<longrightarrow>
        strip_html L (strip_html L h) = serialize L (add_marker (strip_soup s)))"
proof (intro conjI allI impI)
  assume wp: "well_parsed s" and one: "count_tag ''base'' s \<le> 1"
  show "strip_soup (strip_soup s) = add_marker (strip_soup s)"
    by (rule strip_soup_twice[OF wp one])
next
  fix L h
  assume wp: "well_parsed s" and one: "count_tag ''base'' s \<le> 1"
    and a: "parse L h = s \<and> parse L (strip_html L h) = strip_soup s"
  have "strip_html L (strip_html L h) = serialize L (strip_soup (parse L (strip_html L h)))"
    by (simp add: strip_html_def)
  also have "\<dots> = serialize L (strip_soup (strip_soup s))" using a by simp
  finally show "strip_html L (strip_html L h) = serialize L (add_marker (strip_soup s))"
    by (simp add: strip_soup_twice[OF wp one])
qed

theorem strip_second_pass_witness:
  "well_parsed page \<and> count_tag ''base'' page \<le> 1 \<and>
   strip_soup (strip_soup page) = add_marker (strip_soup page) \<and>
   add_marker (strip_soup page) =
     [Doctype ''html'',
      Element ''html'' [(''lang'', ''en'')]
        [Element ''head'' []
           [Element ''style'' []
              [Text ''@font-face{src:url(//static.wixstatic.com/f.woff)}''],
            marker, marker],
         Element ''body'' [] [Element ''p'' [] [Text ''hi'']]]]"
proof -
  have w: "well_parsed page" by (simp add: page_def well_parsed_def raw_tags_def)
  have c: "count_tag ''base'' page \<le> 1" by (simp add: page_def)
  from strip_second_pass[OF w c]
  have "strip_soup (strip_soup page) = add_marker (strip_soup page)" by blast
  moreover have "add_marker (strip_soup page) =
     [Doctype ''html'',
      Element ''html'' [(''lang'', ''en'')]
        [Element ''head'' []
           [Element ''style'' []
              [Text ''@font-face{src:url(//static.wixstatic.com/f.woff)}''],
            marker, marker],
         Element ''body'' [] [Element ''p'' [] [Text ''hi'']]]]"
    by (simp add: page_stripped) (simp add: add_marker_def)
  ultimately show ?thesis using w c by simp
qed

text \<open>
  C2 as stated fails: the marker is appended on every pass. On the page with an empty
  head and body the first pass gives one marker and the second pass two.
\<close>

theorem strip_not_idempotent_counterexample:
  "strip_soup bare_page =
     [Element ''html'' [(''lang'', ''en'')] [Element ''head'' [] [marker], Element ''body'' [] []]] \<and>
   strip_soup (strip_soup bare_page) =
     [Element ''html'' [(''lang'', ''en'')] [Element ''head'' [] [marker, marker], Element ''body'' [] []]] \<and>
   strip_soup (strip_soup bare_page) \<noteq> strip_soup bare_page"
proof -
  have 1: "strip_soup bare_page =
     [Element ''html'' [(''lang'', ''en'')] [Element ''head'' [] [marker], Element ''body'' [] []]]"
    by (simp add: bare_page_def strip_eval)
  have 2: "strip_soup [Element ''html'' [(''lang'', ''en'')] [Element ''head'' [] [marker], Element ''body'' [] []]] =
     [Element ''html'' [(''lang'', ''en'')] [Element ''head'' [] [marker, marker], Element ''body'' [] []]]"
    by (simp add: strip_eval marker_def)
  show ?thesis by (simp add: 1 2)
qed

text \<open>
  C8 (amended). For a style element of a parsed document: when its \<^verbatim>\<open>data-url\<close> or
  \<^verbatim>\<open>data-href\<close> is a remote or vendor URL it is removed, whatever its text; otherwise,
  when its text names a vendor host, it is still in the stripped document exactly when
  the text contains \<^verbatim>\<open>@font-face\<close>.
\<close>

theorem style_kept_iff_font_face:
  "well_parsed s \<Longrightarrow> occurs (Element ''style'' a cs) s \<Longrightarrow>
     (remote_data a \<longrightarrow> \<not> occurs (Element ''style'' a cs) (strip_soup s)) \<and>
     (\<not> remote_data a \<and> WIX_HOST_RE_search (style_text (Element ''style'' a cs)) \<longrightarrow>
        (occurs (Element ''style'' a cs) (strip_soup s)
           \<longleftrightarrow> str_in ''@font-face'' (style_text (Element ''style'' a cs))))"
proof -
  assume wp: "well_parsed s" and o: "occurs (Element ''style'' a cs) s"
  have gone: "drop_style (Element ''style'' a cs) \<Longrightarrow> \<not> occurs (Element ''style'' a cs) (strip_soup s)"
    using none_sat_occurs[OF strip_soup_shape(5)[OF wp]] by blast
  have kept: "\<not> drop_style (Element ''style'' a cs) \<Longrightarrow> occurs (Element ''style'' a cs) (strip_soup s)"
    using style_survives[OF wp o] by blast
  have d: "drop_style (Element ''style'' a cs) \<longleftrightarrow>
      remote_data a \<or> (WIX_HOST_RE_search (style_text (Element ''style'' a cs))
         \<and> \<not> str_in ''@font-face'' (style_text (Element ''style'' a cs)))"
    by (simp add: Let_def)
  from gone[unfolded d] kept[unfolded d] show ?thesis by blast
qed

theorem style_kept_iff_font_face_witness:
  "well_parsed page \<and>
   occurs (Element ''style'' [] [Text ''@font-face{src:url(//static.wixstatic.com/f.woff)}'']) page \<and>
   occurs (Element ''style'' [] [Text ''@font-face{src:url(//static.wixstatic.com/f.woff)}''])
     (strip_soup page) \<and>
   occurs (Element ''style'' [] [Text ''a{background:url(//static.wixstatic.com/i.png)}'']) page \<and>
   \<not> occurs (Element ''style'' [] [Text ''a{background:url(//static.wixstatic.com/i.png)}''])
     (strip_soup page)"
proof -
  let ?f = "[Text ''@font-face{src:url(//static.wixstatic.com/f.woff)}'']"
  let ?g = "[Text ''a{background:url(//static.wixstatic.com/i.png)}'']"
  have w: "well_parsed page" by (simp add: page_def well_parsed_def raw_tags_def)
  have nr: "\<not> remote_data []" by (simp add: remote_data_def get_attr_def is_remote_url_def is_wix_remote_def)
  have of: "occurs (Element ''style'' [] ?f) page" by (simp add: page_def)
  have og: "occurs (Element ''style'' [] ?g) page" by (simp add: page_def)
  have hf: "WIX_HOST_RE_search (style_text (Element ''style'' [] ?f))"
    by (simp add: style_text_def WIX_HOST_RE_search_def py_lower_def py_lower_char_def startswith_def)
  have hg: "WIX_HOST_RE_search (style_text (Element ''style'' [] ?g))"
    by (simp add: style_text_def WIX_HOST_RE_search_def py_lower_def py_lower_char_def startswith_def)
  have ff: "str_in ''@font-face'' (style_text (Element ''style'' [] ?f))"
    by (simp add: style_text_def startswith_def)
  have fg: "\<not> str_in ''@font-face'' (style_text (Element ''style'' [] ?g))"
    by (simp add: style_text_def startswith_def)
  from style_kept_iff_font_face[OF w of] nr hf ff
  have 1: "occurs (Element ''style'' [] ?f) (strip_soup page)" by blast
  from style_kept_iff_font_face[OF w og] nr hg fg
  have 2: "\<not> occurs (Element ''style'' [] ?g) (strip_soup page)" by blast
  show ?thesis using w of og 1 2 by simp
qed

text \<open>
  C8 as stated fails: a style block loaded from a vendor URL is removed although its
  text names a vendor host and has an \<^verbatim>\<open>@font-face\<close> rule.
\<close>

theorem style_font_face_removed_counterexample:
  "WIX_HOST_RE_search (style_text vendor_font_style) \<and>
   str_in ''@font-face'' (style_text vendor_font_style) \<and>
   occurs vendor_font_style vendor_font_page \<and>
   strip_soup vendor_font_page =
     [Element ''html'' [(''lang'', ''en'')] [Element ''head'' [] [marker], Element ''body'' [] []]] \<and>
   \<not> occurs vendor_font_style (strip_soup vendor_font_page)"
proof -
  have 1: "strip_soup vendor_font_page =
     [Element ''html'' [(''lang'', ''en'')] [Element ''head'' [] [marker], Element ''body'' [] []]]"
    by (simp add: vendor_font_page_def vendor_font_style_def strip_eval)
  show ?thesis
    by (simp add: 1) (simp add: vendor_font_page_def vendor_font_style_def marker_def style_text_def
        WIX_HOST_RE_search_def py_lower_def py_lower_char_def startswith_def)
qed


section \<open>The asset namer\<close>

subsection \<open>The digest\<close>

lemma length_sha_vars: "length s = 8 \<Longrightarrow> length (sha_vars s k w) = 8"
proof -
  assume "length s = 8"
  then obtain a b c d e f g h where "s = [a, b, c, d, e, f, g, h]"
    by (auto simp: length_Suc_conv eval_nat_numeral)
  then show ?thesis by (simp add: Let_def)
qed

lemma length_sha_rounds: "length s = 8 \<Longrightarrow> length (fst (foldl sha_round (s, ws) ks)) = 8"
  by (induction ks arbitrary: s ws) (auto simp: sha_round_def length_sha_vars)

lemma length_sha_block: "length hs = 8 \<Longrightarrow> length (sha_block hs block) = 8"
  by (simp add: sha_block_def length_sha_rounds)

lemma length_sha_blocks: "length hs = 8 \<Longrightarrow> length (sha_blocks hs ws) = 8"
proof (induction hs ws rule: sha_blocks.induct)
  case (1 hs ws)
  then show ?case by (subst sha_blocks.simps) (auto simp: length_sha_block)
qed

lemma length_hex_word: "length (hex_word w) = 8"
  by (simp add: hex_word_def)

lemma length_concat_hex: "length (concat (map hex_word ws)) = 8 * length ws"
  by (induction ws) (auto simp: length_hex_word)

lemma length_sha256_hex: "length (sha256_hex s) = 64"
  by (simp add: sha256_hex_def length_concat_hex length_sha_blocks sha_H0_def)

lemma hex_digit_no_dot: "hex_digit n \<noteq> CHR ''.''"
proof -
  have "''0123456789abcdef'' ! (n mod 16) \<in> set ''0123456789abcdef''"
    by (rule nth_mem) simp
  then show ?thesis unfolding hex_digit_def by auto
qed

lemma sha256_hex_no_dot: "CHR ''.'' \<notin> set (sha256_hex s)"
  using hex_digit_no_dot by (auto simp: sha256_hex_def hex_word_def) metis+

subsection \<open>Names\<close>

lemma sanitize_run_clean: "list_all name_char s \<Longrightarrow> sanitize_run b s = s"
  by (induction s arbitrary: b) auto

lemma sanitize_run_append:
  "list_all name_char s \<Longrightarrow> s \<noteq> [] \<Longrightarrow> sanitize_run b (r @ s) = sanitize_run b r @ s"
  by (induction r arbitrary: b) (auto simp: sanitize_run_clean)

lemma sanitize_non_dot:
  "\<exists>c \<in> set r. c \<noteq> CHR ''.'' \<Longrightarrow> \<exists>c \<in> set (sanitize_run False r). c \<noteq> CHR ''.''"
  by (induction r) auto

lemma splitext_parts: "splitext p = (root, ext) \<Longrightarrow> root @ ext = p"
  by (auto simp: splitext_def split: option.splits if_splits)

lemma splitext_no_dot: "CHR ''.'' \<notin> set p \<Longrightarrow> splitext p = (p, [])"
proof -
  assume a: "CHR ''.'' \<notin> set p"
  have "find_char c s = None" if "c \<notin> set s" for c :: char and s
    using that by (induction s) auto
  from this[of "CHR ''.''" "rev p"] a show ?thesis by (simp add: splitext_def rfind_char_def)
qed

lemma splitext_js:
  assumes "\<exists>c \<in> set z. c \<noteq> CHR ''.''"
  shows "splitext (z @ ''.js'') = (z, ''.js'')"
  using assms by (auto simp: splitext_def rfind_char_def)

lemma splitext_js_inv:
  assumes "snd (splitext b) = ''.js''"
  shows "\<exists>r. b = r @ ''.js'' \<and> (\<exists>c \<in> set r. c \<noteq> CHR ''.'')"
  using assms
  by (auto simp: splitext_def split: option.splits if_splits intro!: exI[of _ "take _ b"])
     (metis append_take_drop_id)+


lemma safe_filename_shape:
  assumes "urlparse E u = Some p"
  shows "safe_filename_from_url E u =
           Some (fst (splitext (name0 u (url_path p))) @ query_tag (url_query p)
                 @ snd (splitext (name0 u (url_path p))))"
proof -
  obtain root ext where s: "splitext (name0 u (url_path p)) = (root, ext)" by force
  from splitext_parts[OF s] show ?thesis using assms s
    by (auto simp: safe_filename_from_url_def name0_def Let_def query_tag_def)
qed

lemma name0_cases:
  "(name0 u pth = sanitize (basename pth)) \<or>
   (name0 u pth = ''asset_'' @ take 16 (sha256_hex u) \<and> splitext (name0 u pth) = (name0 u pth, []))"
proof (cases "basename pth \<noteq> [] \<and> CHR ''.'' \<in> set (basename pth)")
  case True
  then show ?thesis by (simp add: name0_def)
next
  case False
  have "CHR ''.'' \<notin> set (''asset_'' @ take 16 (sha256_hex u))"
    using sha256_hex_no_dot[of u] by (auto dest: in_set_takeD)
  then show ?thesis using False splitext_no_dot by (auto simp: name0_def)
qed

lemma names_differ:
  assumes "urlparse E u1 = Some p1" "urlparse E u2 = Some p2"
    and "url_path p1 = url_path p2"
    and "query_tag (url_query p1) \<noteq> query_tag (url_query p2)"
  shows "safe_filename_from_url E u1 \<noteq> safe_filename_from_url E u2"
proof (cases "basename (url_path p1) \<noteq> [] \<and> CHR ''.'' \<in> set (basename (url_path p1))")
  case True
  then have "name0 u1 (url_path p1) = name0 u2 (url_path p2)" using assms(3) by (simp add: name0_def)
  then show ?thesis using assms by (simp add: safe_filename_shape)
next
  case False
  let ?h1 = "take 16 (sha256_hex u1)" and ?h2 = "take 16 (sha256_hex u2)"
  from False assms(3) have n: "name0 u1 (url_path p1) = ''asset_'' @ ?h1"
    "name0 u2 (url_path p2) = ''asset_'' @ ?h2" by (auto simp: name0_def)
  have nd: "CHR ''.'' \<notin> set (''asset_'' @ ?h1)" "CHR ''.'' \<notin> set (''asset_'' @ ?h2)"
    using sha256_hex_no_dot[of u1] sha256_hex_no_dot[of u2] by (auto dest: in_set_takeD)
  have l: "length ?h1 = length ?h2" by (simp add: length_sha256_hex)
  from safe_filename_shape[OF assms(1), unfolded n(1) splitext_no_dot[OF nd(1)]]
  have 1: "safe_filename_from_url E u1 = Some (''asset_'' @ ?h1 @ query_tag (url_query p1))" by simp
  from safe_filename_shape[OF assms(2), unfolded n(2) splitext_no_dot[OF nd(2)]]
  have 2: "safe_filename_from_url E u2 = Some (''asset_'' @ ?h2 @ query_tag (url_query p2))" by simp
  show ?thesis unfolding 1 2 using assms(4) l by auto
qed

lemma js_name:
  assumes "urlparse E u = Some p" "snd (splitext (basename (url_path p))) = ''.js''"
  shows "\<exists>n. safe_filename_from_url E u = Some n \<and> endswith n ''.js''"
proof -
  from splitext_js_inv[OF assms(2)] obtain r where
    r: "basename (url_path p) = r @ ''.js''" "\<exists>c \<in> set r. c \<noteq> CHR ''.''" by blast
  have "sanitize (r @ ''.js'') = sanitize r @ ''.js''"
    unfolding sanitize_def by (rule sanitize_run_append) (simp_all add: name_char_def)
  then have n0: "name0 u (url_path p) = sanitize r @ ''.js''" using r by (simp add: name0_def)
  have "splitext (sanitize r @ ''.js'') = (sanitize r, ''.js'')"
    by (rule splitext_js) (use r(2) sanitize_non_dot in \<open>simp add: sanitize_def\<close>)
  then show ?thesis using safe_filename_shape[OF assms(1)] n0
    by (simp add: endswith_def startswith_def)
qed


lemmas url_eval = urlparse_def urlparse_with_def urlsplit_def splitnetloc_def netloc_ok_def
  split1_def c0_or_space_def unsafe_url_char_def ascii_alpha_def scheme_chars_def uses_params_def
  py_lower_def py_lower_char_def startswith_def Let_def

lemma parse_a_js:
  "urlparse E (''http://h/a.js?'' @ q) =
     (if CHR ''#'' \<in> set q then urlparse E (''http://h/a.js?'' @ q)
      else Some \<lparr>url_scheme = ''http'', url_netloc = ''h'', url_path = ''/a.js'', url_params = [],
                  url_query = filter (\<lambda>c. \<not> unsafe_url_char c) q, url_fragment = []\<rparr>)"
  by (simp add: url_eval)

lemma parse_plain: "urlparse E ''http://h/a.js'' =
   Some \<lparr>url_scheme = ''http'', url_netloc = ''h'', url_path = ''/a.js'', url_params = [],
                  url_query = [], url_fragment = []\<rparr>"
  by (simp add: url_eval)


lemma name_a_js:
  assumes "CHR ''#'' \<notin> set q"
  shows "safe_filename_from_url E (''http://h/a.js?'' @ q) =
           Some (''a'' @ query_tag (filter (\<lambda>c. \<not> unsafe_url_char c) q) @ ''.js'')"
proof -
  have n: "name0 u ''/a.js'' = ''a.js''" for u
    by (simp add: name0_def basename_def sanitize_def name_char_def)
  have s: "splitext ''a.js'' = (''a'', ''.js'')"
    by (simp add: splitext_def rfind_char_def)
  from assms have p: "urlparse E (''http://h/a.js?'' @ q) =
      Some \<lparr>url_scheme = ''http'', url_netloc = ''h'', url_path = ''/a.js'', url_params = [],
                  url_query = filter (\<lambda>c. \<not> unsafe_url_char c) q, url_fragment = []\<rparr>"
    by (subst parse_a_js) simp
  show ?thesis using safe_filename_shape[OF p] by (simp add: n s)
qed

lemma digest_prefix_collision:
  "\<exists>n m. n \<noteq> m \<and> take 8 (sha256_hex (replicate (Suc n) CHR ''a''))
                    = take 8 (sha256_hex (replicate (Suc m) CHR ''a''))"
proof -
  let ?f = "\<lambda>n::nat. take 8 (sha256_hex (replicate (Suc n) CHR ''a''))"
  have "range ?f \<subseteq> {xs. set xs \<subseteq> (UNIV :: char set) \<and> length xs \<le> 8}" by auto
  moreover have "finite {xs. set xs \<subseteq> (UNIV :: char set) \<and> length xs \<le> 8}"
    by (rule finite_lists_length_le) simp
  ultimately have "finite (range ?f)" by (rule finite_subset)
  then have "\<not> inj ?f" using finite_imageD infinite_UNIV_nat by blast
  then show ?thesis unfolding inj_def by blast
qed

text \<open>
  C3 as stated fails: the query enters the name through eight hexadecimal digits of its
  digest only, so among the URLs \<^verbatim>\<open>http://h/a.js?a\<close>, \<^verbatim>\<open>http://h/a.js?aa\<close>, ...
  two with different queries have the same name.
\<close>

theorem safe_filename_collision_counterexample:
  "\<exists>u1 u2 p1 p2.
      urlparse (serving []) u1 = Some p1 \<and> urlparse (serving []) u2 = Some p2 \<and>
      url_scheme p1 = url_scheme p2 \<and> url_netloc p1 = url_netloc p2 \<and>
      url_path p1 = url_path p2 \<and> url_query p1 \<noteq> url_query p2 \<and>
      safe_filename_from_url (serving []) u1 = safe_filename_from_url (serving []) u2"
proof -
  define q where "q k = replicate (Suc k) CHR ''a''" for k :: nat
  define u where "u k = ''http://h/a.js?'' @ q k" for k :: nat
  from digest_prefix_collision obtain n m where nm: "n \<noteq> m"
    and c: "take 8 (sha256_hex (q n)) = take 8 (sha256_hex (q m))"
    unfolding q_def by blast
  have f: "filter (\<lambda>c. \<not> unsafe_url_char c) (q k) = q k" for k
    by (simp add: unsafe_url_char_def q_def)
  have h: "CHR ''#'' \<notin> set (q k)" for k by (simp add: q_def)
  have ne: "q k \<noteq> []" for k by (simp add: q_def)
  have p: "urlparse (serving []) (u k) =
      Some \<lparr>url_scheme = ''http'', url_netloc = ''h'', url_path = ''/a.js'', url_params = [],
                  url_query = q k, url_fragment = []\<rparr>" for k
    unfolding u_def using h[of k] f[of k] by (subst parse_a_js) simp
  have nme: "safe_filename_from_url (serving []) (u k) = Some (''a'' @ query_tag (q k) @ ''.js'')" for k
    unfolding u_def using name_a_js[OF h[of k], of "serving []"] f[of k] by simp
  have d: "q n \<noteq> q m" using nm unfolding q_def by (metis length_replicate nat.inject)
  have "query_tag (q n) = query_tag (q m)" using c ne by (simp add: query_tag_def)
  then have e: "safe_filename_from_url (serving []) (u n) = safe_filename_from_url (serving []) (u m)"
    by (simp add: nme)
  show ?thesis using p[of n] p[of m] d e
    by (intro exI[of _ "u n"] exI[of _ "u m"]) simp
qed

text \<open>
  C3 (amended). \<^verbatim>\<open>_safe_filename_from_url\<close> is a function of the URL alone. Two URLs
  with the same scheme, host and path have different names whenever what their queries
  add to the name differs (one query is empty and the other is not, or the first eight
  digits of their digests differ). A URL whose last path segment has the extension
  \<^verbatim>\<open>.js\<close> has a name that ends in \<^verbatim>\<open>.js\<close>.
\<close>

theorem safe_filename_properties:
  "(u1 = u2 \<longrightarrow> safe_filename_from_url E u1 = safe_filename_from_url E u2) \<and>
   (urlparse E u1 = Some p1 \<and> urlparse E u2 = Some p2 \<and>
    url_scheme p1 = url_scheme p2 \<and> url_netloc p1 = url_netloc p2 \<and> url_path p1 = url_path p2 \<and>
    query_tag (url_query p1) \<noteq> query_tag (url_query p2)
      \<longrightarrow> safe_filename_from_url E u1 \<noteq> safe_filename_from_url E u2) \<and>
   (urlparse E u1 = Some p1 \<and> snd (splitext (basename (url_path p1))) = ''.js''
      \<longrightarrow> (\<exists>n. safe_filename_from_url E u1 = Some n \<and> endswith n ''.js''))"
  using names_differ js_name by blast

theorem safe_filename_properties_witness:
  "urlparse (serving []) ''http://h/a.js?v=2'' =
     Some \<lparr>url_scheme = ''http'', url_netloc = ''h'', url_path = ''/a.js'', url_params = [],
            url_query = ''v=2'', url_fragment = []\<rparr> \<and>
   urlparse (serving []) ''http://h/a.js'' =
     Some \<lparr>url_scheme = ''http'', url_netloc = ''h'', url_path = ''/a.js'', url_params = [],
            url_query = [], url_fragment = []\<rparr> \<and>
   query_tag ''v=2'' \<noteq> query_tag [] \<and>
   snd (splitext (basename ''/a.js'')) = ''.js'' \<and>
   safe_filename_from_url (serving []) ''http://h/a.js?v=2'' \<noteq>
     safe_filename_from_url (serving []) ''http://h/a.js'' \<and>
   (\<exists>n. safe_filename_from_url (serving []) ''http://h/a.js?v=2'' = Some n \<and> endswith n ''.js'')"
proof -
  let ?p1 = "\<lparr>url_scheme = ''http'', url_netloc = ''h'', url_path = ''/a.js'', url_params = [],
            url_query = ''v=2'', url_fragment = []\<rparr>"
  let ?p2 = "\<lparr>url_scheme = ''http'', url_netloc = ''h'', url_path = ''/a.js'', url_params = [],
            url_query = [], url_fragment = []\<rparr>"
  have a: "urlparse (serving []) ''http://h/a.js?v=2'' = Some ?p1" by (simp add: url_eval)
  have b: "urlparse (serving []) ''http://h/a.js'' = Some ?p2" by (simp add: url_eval)
  have t: "query_tag ''v=2'' \<noteq> query_tag []" by (simp add: query_tag_def)
  have e: "snd (splitext (basename ''/a.js'')) = ''.js''"
    by (simp add: splitext_def rfind_char_def basename_def)
  from safe_filename_properties[of "''http://h/a.js?v=2''" "''http://h/a.js''" "serving []" ?p1 ?p2]
    a b t e
  show ?thesis by simp
qed


section \<open>References in HTML and CSS\<close>

lemmas scrape_eval = url_eval urljoin_def normalize_url_def strip_fragment_def urlunparse_def
  urlunsplit_def uses_relative_def uses_netloc_def is_http_url_def resolve_def
  py_strip_def lstrip_ws_def rstrip_ws_def py_isspace_def rstrip_chars_def lstrip_chars_def
  serving_def


lemmas fs_eval = download_binary_def ensure_parent_def os_mkdir_def realpath_def
  mkdir_parents.simps is_dir_def stat_def write_bytes_def st_size_def entries_def

lemmas name_eval = safe_filename_from_url_def basename_def sanitize_def name_char_def
  splitext_def rfind_char_def query_tag_def



text \<open>
  C1. The code appends the closing slash after the query and the fragment: on a page of
  \<^verbatim>\<open>sameHost\<close> the anchor \<^verbatim>\<open>https://sameHost/news?x=1#y\<close> becomes
  \<^verbatim>\<open>/news/?x=1#y/\<close>, not \<^verbatim>\<open>/news/?x=1#y\<close>. Without query and fragment the path gets
  its trailing slash, and an anchor to another host is left as it is.
\<close>

theorem rewrite_anchor_appends_slash_after_fragment:
  "rewrite_anchor (serving []) ''https://sameHost/'' ''https://sameHost/news?x=1#y''
     = Inr (Some ''/news/?x=1#y/'') \<and>
   rewrite_anchor (serving []) ''https://sameHost/'' ''https://sameHost/news''
     = Inr (Some ''/news/'') \<and>
   rewrite_anchor (serving []) ''https://sameHost/'' ''https://otherHost/news?x=1#y''
     = Inr None"
  by (simp add: rewrite_anchor_def scrape_eval py_replace.simps)

text \<open>
  C7. For a reference that \<^verbatim>\<open>localize_attr\<close> does not skip (not empty, not a
  \<^verbatim>\<open>data:\<close>, \<^verbatim>\<open>mailto:\<close>, \<^verbatim>\<open>tel:\<close> or fragment reference) whose resolved URL is an
  HTTP(S) URL that contains the runtime-bundle path, the attribute is set to that
  absolute URL and the world is left as it was: nothing is downloaded and no local path
  is written.
\<close>

theorem localize_attr_keeps_remote_bundle:
  assumes "get_attr attrs attr = Some val" and "val \<noteq> []"
    and "\<not> startswith (py_strip val) ''data:''"
    and "\<not> startswith (py_strip val) ''mailto:''"
    and "\<not> startswith (py_strip val) ''tel:''"
    and "\<not> startswith (py_strip val) ''#''"
    and "resolve E page_url (fix_entities (py_strip val)) = Some abs_url"
    and "is_http_url E abs_url"
    and "str_in thunderbolt_pattern abs_url"
  shows "localize_attr E page_url out_html_path assets_dir attrs attr w
           = (Inr (set_attr attrs attr abs_url), w) \<and>
         get_attr (set_attr attrs attr abs_url) attr = Some abs_url"
  using assms by (simp add: localize_attr_def Let_def)

theorem localize_attr_keeps_remote_bundle_witness:
  "localize_attr (serving ''x'') ''https://www.yu-lab.org/news'' [''site'', ''news'', ''index.html'']
      [''site'', ''assets''] [(''src'', bundle_ref)] ''src'' empty_world
     = (Inr [(''src'', ''https:'' @ bundle_ref)], empty_world)"
proof -
  have r: "resolve (serving ''x'') ''https://www.yu-lab.org/news'' (fix_entities (py_strip bundle_ref))
             = Some (''https:'' @ bundle_ref)"
    by (simp add: bundle_ref_def fix_entities_def py_replace.simps scrape_eval)
  have h: "is_http_url (serving ''x'') (''https:'' @ bundle_ref)"
    by (simp add: bundle_ref_def scrape_eval)
  have p: "str_in thunderbolt_pattern (''https:'' @ bundle_ref)"
    by (simp add: bundle_ref_def thunderbolt_pattern_def startswith_def)
  have s: "py_strip bundle_ref = bundle_ref"
    by (simp add: bundle_ref_def py_strip_def lstrip_ws_def rstrip_ws_def py_isspace_def)
  have n: "bundle_ref \<noteq> []" "\<not> startswith (py_strip bundle_ref) ''data:''"
    "\<not> startswith (py_strip bundle_ref) ''mailto:''"
    "\<not> startswith (py_strip bundle_ref) ''tel:''" "\<not> startswith (py_strip bundle_ref) ''#''"
    unfolding s by (simp_all add: bundle_ref_def startswith_def)
  have g: "get_attr [(''src'', bundle_ref)] ''src'' = Some bundle_ref" by (simp add: get_attr_def)
  from localize_attr_keeps_remote_bundle[OF g n r h p]
  show ?thesis by simp
qed










section \<open>The worker bootstrap localizer\<close>

subsection \<open>The walk\<close>

lemma maybe_rewrite_unmarked:
  "\<not> str_in ''clientWorker.'' v \<Longrightarrow> maybe_rewrite_value E ad eb v w = (Inr v, w)"
  by (simp add: maybe_rewrite_value_def)

lemma walk_shape:
  "walk E ad eb j w = (Inr j', w') \<Longrightarrow> shape_kept j j'"
  "walk_members E ad eb kvs w = (Inr kvs', w') \<Longrightarrow> members_kept kvs kvs'"
  "walk_list E ad eb xs w = (Inr xs', w') \<Longrightarrow> elements_kept xs xs'"
proof (induction E ad eb j w and E ad eb kvs w and E ad eb xs w
       arbitrary: j' w' and kvs' w' and xs' w' rule: walk_walk_members_walk_list.induct)
  case (3 E ad eb s w)
  then show ?case
    by (cases "str_in ''clientWorker.'' s")
       (auto simp: maybe_rewrite_unmarked split: prod.splits sum.splits)
qed (auto split: prod.splits sum.splits)

lemma walk_unmarked:
  "\<not> mentions_worker j \<Longrightarrow> walk E ad eb j w = (Inr j, w)"
  "\<not> list_ex (\<lambda>kv. mentions_worker (snd kv)) kvs \<Longrightarrow> walk_members E ad eb kvs w = (Inr kvs, w)"
  "\<not> list_ex mentions_worker xs \<Longrightarrow> walk_list E ad eb xs w = (Inr xs, w)"
  by (induction E ad eb j w and E ad eb kvs w and E ad eb xs w
       rule: walk_walk_members_walk_list.induct)
     (auto simp: maybe_rewrite_unmarked)

lemma walk_site_shape:
  "walk_site E ad eb kvs w = (Inr (kvs', eb'), w') \<Longrightarrow> members_kept kvs kvs'"
  by (induction E ad eb kvs w arbitrary: kvs' eb' w' rule: walk_site.induct)
     (auto split: prod.splits sum.splits dest: walk_shape(1))

lemma walk_site_unmarked:
  "\<not> list_ex (\<lambda>kv. mentions_worker (snd kv)) kvs \<Longrightarrow>
   \<exists>eb'. walk_site E ad eb kvs w = (Inr (kvs, eb'), w)"
  by (induction E ad eb kvs w rule: walk_site.induct) (auto simp: walk_unmarked)

lemma walk_top_member_shape:
  assumes "walk_top_member E ad eb k v w = (Inr (v', eb'), w')"
  shows "shape_kept v v'"
proof (cases "\<exists>site. v = JObj site \<and> k = ''site''")
  case True
  then obtain site where v: "v = JObj site" "k = ''site''" by blast
  with assms obtain site' where "walk_site E ad eb site w = (Inr (site', eb'), w')" "v' = JObj site'"
    by (auto simp: walk_top_member_def split: prod.splits sum.splits)
  then show ?thesis using walk_site_shape v by auto
next
  case False
  with assms have "walk E ad eb v w = (Inr v', w')"
    by (auto simp: walk_top_member_def simp del: walk.simps split: prod.splits sum.splits json.splits if_splits)
  then show ?thesis by (rule walk_shape(1))
qed

lemma walk_top_member_unmarked:
  assumes "\<not> mentions_worker v"
  shows "\<exists>eb'. walk_top_member E ad eb k v w = (Inr (v, eb'), w)"
proof (cases "\<exists>site. v = JObj site \<and> k = ''site''")
  case True
  then obtain site where v: "v = JObj site" "k = ''site''" by blast
  with assms walk_site_unmarked[of site E ad eb w] show ?thesis
    by (auto simp: walk_top_member_def)
next
  case False
  from walk_unmarked(1)[OF assms, of E ad eb w] False show ?thesis
    by (auto simp: walk_top_member_def simp del: walk.simps split: json.splits)
qed

lemma walk_top_shape:
  "walk_top E ad eb kvs w = (Inr kvs', w') \<Longrightarrow> members_kept kvs kvs'"
  by (induction E ad eb kvs w arbitrary: kvs' w' rule: walk_top.induct)
     (auto split: prod.splits sum.splits dest: walk_top_member_shape)

lemma walk_top_unmarked:
  "\<not> list_ex (\<lambda>kv. mentions_worker (snd kv)) kvs \<Longrightarrow> walk_top E ad eb kvs w = (Inr kvs, w)"
proof (induction kvs arbitrary: eb)
  case Nil
  then show ?case by simp
next
  case (Cons kv kvs)
  obtain k v where kv: "kv = (k, v)" by force
  from Cons.prems kv have "\<not> mentions_worker v" by simp
  from walk_top_member_unmarked[OF this, of E ad eb k w] obtain eb' where
    "walk_top_member E ad eb k v w = (Inr (v, eb'), w)" by blast
  then show ?case using Cons kv by simp
qed

subsection \<open>The value written for the worker\<close>

lemma hex_digit_no_slash: "hex_digit n \<noteq> CHR ''/''"
proof -
  have "''0123456789abcdef'' ! (n mod 16) \<in> set ''0123456789abcdef''"
    by (rule nth_mem) simp
  then show ?thesis unfolding hex_digit_def by auto
qed

lemma sha256_hex_no_slash: "CHR ''/'' \<notin> set (sha256_hex s)"
  using hex_digit_no_slash by (auto simp: sha256_hex_def hex_word_def) metis+

lemma sanitize_run_no_slash: "CHR ''/'' \<notin> set (sanitize_run b s)"
  by (induction b s rule: sanitize_run.induct) (auto simp: name_char_def)

lemma sanitize_run_nonempty: "s \<noteq> [] \<Longrightarrow> sanitize_run False s \<noteq> []"
  by (cases s) auto

lemma name0_plain: "name0 u pth \<noteq> [] \<and> CHR ''/'' \<notin> set (name0 u pth)"
  using sha256_hex_no_slash[of u]
  by (auto simp: name0_def Let_def sanitize_def sanitize_run_no_slash sanitize_run_nonempty
      dest: in_set_takeD)

lemma safe_filename_plain:
  assumes "safe_filename_from_url E u = Some name"
  shows "name \<noteq> [] \<and> CHR ''/'' \<notin> set name"
proof -
  from assms obtain p where p: "urlparse E u = Some p"
    by (auto simp: safe_filename_from_url_def split: option.splits)
  obtain root ext where s: "splitext (name0 u (url_path p)) = (root, ext)" by force
  from splitext_parts[OF s] have e: "name0 u (url_path p) = root @ ext" by simp
  from name0_plain[of u "url_path p"]
  have r: "root @ ext \<noteq> []" "CHR ''/'' \<notin> set root" "CHR ''/'' \<notin> set ext"
    unfolding e by auto
  from safe_filename_shape[OF p] assms s
  have n: "name = root @ query_tag (url_query p) @ ext" by simp
  have "CHR ''/'' \<notin> set (query_tag q)" for q
    using sha256_hex_no_slash[of q] by (auto simp: query_tag_def dest: in_set_takeD)
  with r n show ?thesis by auto
qed

lemma py_split_absent: "c \<notin> set s \<Longrightarrow> py_split c s = [s]"
  by (induction s) auto

lemma path_div_name:
  assumes "name \<noteq> []" "CHR ''/'' \<notin> set name"
  shows "path_div p name = (if name = ''.'' then p else p @ [name])"
proof -
  from assms have "\<not> startswith name ''/''" by (cases name) (auto simp: startswith_def)
  then show ?thesis using assms by (simp add: path_div_def py_split_absent)
qed

lemma relative_to_parent:
  "relative_to_posix (out_dir @ ''assets'' # rest) out_dir = Inr (py_join ''/'' (''assets'' # rest))"
  by (simp add: relative_to_posix_def)

lemma worker_ref_marked: "str_in ''clientWorker.'' worker_ref"
  by (simp add: worker_ref_def startswith_def)

lemma worker_ref_raw: "strip_fragment E worker_ref = Some worker_ref"
  by (simp add: worker_ref_def scrape_eval)

lemma worker_ref_relative: "\<not> is_http_url E worker_ref \<and> startswith worker_ref ''/''"
  by (simp add: worker_ref_def scrape_eval)

lemma worker_ref_joined:
  "urljoin E (rstrip_chars ''/'' ''https://cdn.example.com'' @ ''/'') (lstrip_chars ''/'' worker_ref)
     = Some ''https://cdn.example.com/clientWorker.abc123.bundle.min.js''"
  by (simp add: worker_ref_def scrape_eval drop_empty_inner_def)

lemma worker_ref_name:
  "safe_filename_from_url E ''https://cdn.example.com/clientWorker.abc123.bundle.min.js''
     = Some ''clientWorker.abc123.bundle.min.js''"
  by (simp add: name_eval url_eval)

lemma worker_ref_download:
  "download_binary (serving ''JS'') ''https://cdn.example.com/clientWorker.abc123.bundle.min.js''
     [''site'', ''assets'', ''wix-workers'', ''clientWorker.abc123.bundle.min.js''] empty_world
   = (Inr True, worker_world ''JS'' ''https://cdn.example.com/clientWorker.abc123.bundle.min.js'')"
  by (simp add: fs_eval serving_def empty_world_def worker_world_def)

lemma worker_ref_rewritten:
  "maybe_rewrite_value (serving ''JS'') [''site'', ''assets'']
     (Some (JStr ''https://cdn.example.com'')) worker_ref empty_world
   = (Inr ''/assets/wix-workers/clientWorker.abc123.bundle.min.js'',
      worker_world ''JS'' ''https://cdn.example.com/clientWorker.abc123.bundle.min.js'')"
proof -
  have p: "path_div (path_div [''site'', ''assets''] ''wix-workers'') ''clientWorker.abc123.bundle.min.js''
             = [''site'', ''assets'', ''wix-workers'', ''clientWorker.abc123.bundle.min.js'']"
    by (simp add: path_div_def startswith_def)
  show ?thesis
    using worker_ref_marked worker_ref_relative[of "serving ''JS''"]
    by (simp add: maybe_rewrite_value_def worker_ref_raw worker_ref_joined worker_ref_name
        p worker_ref_download relative_to_posix_def)
qed

text \<open>
  C10. \<^verbatim>\<open>walk\<close> keeps the shape of the model: when it returns, every object has the same
  keys in the same order, every list the same length with its elements in place, every
  number, boolean and \<^verbatim>\<open>null\<close> is the same, and every string without
  \<^verbatim>\<open>clientWorker.\<close> is the same. On a model in which no string contains
  \<^verbatim>\<open>clientWorker.\<close> it returns the model itself and touches nothing. (On a string with
  \<^verbatim>\<open>clientWorker.\<close> the walk can also raise: \<^verbatim>\<open>ValueError\<close> from the URL parser,
  \<^verbatim>\<open>AttributeError\<close> when \<^verbatim>\<open>externalBaseUrl\<close> is not a string.)
\<close>

theorem walk_keeps_shape:
  "(walk_model E assets_dir model w = (Inr model', w') \<longrightarrow> shape_kept model model') \<and>
   (\<not> mentions_worker model \<longrightarrow> walk_model E assets_dir model w = (Inr model, w))"
proof (intro conjI impI)
  assume a: "walk_model E assets_dir model w = (Inr model', w')"
  show "shape_kept model model'"
  proof (cases "\<exists>kvs. model = JObj kvs")
    case True
    then obtain kvs where m: "model = JObj kvs" by blast
    with a obtain kvs' where "walk_top E assets_dir (external_base_of model) kvs w = (Inr kvs', w')"
      "model' = JObj kvs'"
      by (auto simp: walk_model_def split: prod.splits sum.splits)
    then show ?thesis using walk_top_shape m by auto
  next
    case False
    with a have "walk E assets_dir None model w = (Inr model', w')"
      by (auto simp: walk_model_def simp del: walk.simps split: json.splits)
    then show ?thesis by (rule walk_shape(1))
  qed
next
  assume n: "\<not> mentions_worker model"
  show "walk_model E assets_dir model w = (Inr model, w)"
  proof (cases "\<exists>kvs. model = JObj kvs")
    case True
    then obtain kvs where m: "model = JObj kvs" by blast
    with n show ?thesis by (simp add: walk_model_def walk_top_unmarked)
  next
    case False
    with walk_unmarked(1)[OF n, of E assets_dir None w] show ?thesis
      by (auto simp: walk_model_def simp del: walk.simps split: json.splits)
  qed
qed

theorem walk_keeps_shape_witness:
  "walk_model (serving ''JS'') [''site'', ''assets''] viewer_model empty_world
     = (Inr (JObj [(''site'', JObj [(''externalBaseUrl'', JStr ''https://cdn.example.com'')]),
                   (''worker'', JStr ''/assets/wix-workers/clientWorker.abc123.bundle.min.js''),
                   (''count'', JInt 3),
                   (''pages'', JArr [JStr ''home'', JNull])]),
        worker_world ''JS'' ''https://cdn.example.com/clientWorker.abc123.bundle.min.js'') \<and>
   shape_kept viewer_model
     (JObj [(''site'', JObj [(''externalBaseUrl'', JStr ''https://cdn.example.com'')]),
            (''worker'', JStr ''/assets/wix-workers/clientWorker.abc123.bundle.min.js''),
            (''count'', JInt 3),
            (''pages'', JArr [JStr ''home'', JNull])]) \<and>
   \<not> mentions_worker (JArr [JStr ''home'', JNull]) \<and>
   walk_model unreachable [''site'', ''assets''] (JArr [JStr ''home'', JNull]) empty_world
     = (Inr (JArr [JStr ''home'', JNull]), empty_world)"
proof -
  let ?E = "serving ''JS''"
  let ?m' = "JObj [(''site'', JObj [(''externalBaseUrl'', JStr ''https://cdn.example.com'')]),
                   (''worker'', JStr ''/assets/wix-workers/clientWorker.abc123.bundle.min.js''),
                   (''count'', JInt 3),
                   (''pages'', JArr [JStr ''home'', JNull])]"
  let ?w' = "worker_world ''JS'' ''https://cdn.example.com/clientWorker.abc123.bundle.min.js''"
  have u: "maybe_rewrite_value E ad eb ''https://cdn.example.com'' w
             = (Inr ''https://cdn.example.com'', w)"
          "maybe_rewrite_value E ad eb ''home'' w = (Inr ''home'', w)" for E ad eb w
    by (simp_all add: maybe_rewrite_unmarked startswith_def)
  have e: "walk_model ?E [''site'', ''assets''] viewer_model empty_world = (Inr ?m', ?w')"
    by (simp add: walk_model_def viewer_model_def external_base_of_def walk_top_member_def
        u worker_ref_rewritten)
  have n: "\<not> mentions_worker (JArr [JStr ''home'', JNull])" by (simp add: startswith_def)
  from walk_keeps_shape[of ?E "[''site'', ''assets'']" viewer_model empty_world ?m' ?w'] e
  have 1: "shape_kept viewer_model ?m'" by simp
  from walk_keeps_shape[of unreachable "[''site'', ''assets'']" "JArr [JStr ''home'', JNull]"
      empty_world] n
  have 2: "walk_model unreachable [''site'', ''assets''] (JArr [JStr ''home'', JNull]) empty_world
             = (Inr (JArr [JStr ''home'', JNull]), empty_world)"
    by simp
  show ?thesis using e 1 n 2 by simp
qed

text \<open>
  For a string that contains \<^verbatim>\<open>clientWorker.\<close> and, with its fragment removed, starts
  with a slash and is not an HTTP(S) URL, and for the assets directory
  \<^verbatim>\<open>out_dir / "assets"\<close>: when the lookup of \<^verbatim>\<open>site.externalBaseUrl\<close> gives \<open>None\<close>
  the string is kept and nothing is fetched; when it gives a non-empty string and the
  download of the joined URL returns, the string becomes \<^verbatim>\<open>/assets/wix-workers/<name>\<close>
  for every name of the joined URL other than \<^verbatim>\<open>.\<close>. The name is never empty and
  never contains a slash.
\<close>

lemma worker_value_site_root_absolute:
  assumes "str_in ''clientWorker.'' v"
    and "strip_fragment E v = Some raw"
    and "\<not> is_http_url E raw"
    and "startswith raw ''/''"
  shows
    "(eb = None \<longrightarrow> maybe_rewrite_value E (out_dir @ [''assets'']) eb v w = (Inr v, w)) \<and>
     (eb = Some (JStr external_base) \<and> external_base \<noteq> [] \<and>
      urljoin E (rstrip_chars ''/'' external_base @ ''/'') (lstrip_chars ''/'' raw) = Some abs_url \<and>
      safe_filename_from_url E abs_url = Some name \<and>
      download_binary E abs_url (path_div (out_dir @ [''assets'', ''wix-workers'']) name) w
        = (Inr d, w') \<longrightarrow>
      maybe_rewrite_value E (out_dir @ [''assets'']) eb v w =
        (Inr (if name = ''.'' then ''/assets/wix-workers'' else ''/assets/wix-workers/'' @ name), w'))"
proof (intro conjI impI)
  assume "eb = None"
  with assms show "maybe_rewrite_value E (out_dir @ [''assets'']) eb v w = (Inr v, w)"
    by (simp add: maybe_rewrite_value_def)
next
  assume a: "eb = Some (JStr external_base) \<and> external_base \<noteq> [] \<and>
      urljoin E (rstrip_chars ''/'' external_base @ ''/'') (lstrip_chars ''/'' raw) = Some abs_url \<and>
      safe_filename_from_url E abs_url = Some name \<and>
      download_binary E abs_url (path_div (out_dir @ [''assets'', ''wix-workers'']) name) w
        = (Inr d, w')"
  have ww: "path_div (out_dir @ [''assets'']) ''wix-workers'' = out_dir @ [''assets'', ''wix-workers'']"
    by (simp add: path_div_def startswith_def)
  from a safe_filename_plain have n: "name \<noteq> []" "CHR ''/'' \<notin> set name" by blast+
  have rel: "relative_to_posix (path_div (out_dir @ [''assets'', ''wix-workers'']) name) out_dir
             = Inr (if name = ''.'' then ''assets/wix-workers'' else ''assets/wix-workers/'' @ name)"
    using relative_to_parent[of out_dir "[''wix-workers'']"]
      relative_to_parent[of out_dir "[''wix-workers'', name]"]
    by (simp add: path_div_name[OF n])
  from a assms show "maybe_rewrite_value E (out_dir @ [''assets'']) eb v w =
        (Inr (if name = ''.'' then ''/assets/wix-workers'' else ''/assets/wix-workers/'' @ name), w')"
    by (simp add: maybe_rewrite_value_def ww rel)
qed

text \<open>The same for \<^verbatim>\<open>walk\<close> on a string of the model.\<close>

lemma walk_worker_string:
  assumes "str_in ''clientWorker.'' v"
    and "strip_fragment E v = Some raw"
    and "\<not> is_http_url E raw"
    and "startswith raw ''/''"
  shows
    "(eb = None \<longrightarrow> walk E (out_dir @ [''assets'']) eb (JStr v) w = (Inr (JStr v), w)) \<and>
     (eb = Some (JStr external_base) \<and> external_base \<noteq> [] \<and>
      urljoin E (rstrip_chars ''/'' external_base @ ''/'') (lstrip_chars ''/'' raw) = Some abs_url \<and>
      safe_filename_from_url E abs_url = Some name \<and> name \<noteq> ''.'' \<and>
      download_binary E abs_url (out_dir @ [''assets'', ''wix-workers'', name]) w = (Inr d, w') \<longrightarrow>
      walk E (out_dir @ [''assets'']) eb (JStr v) w = (Inr (JStr (''/assets/wix-workers/'' @ name)), w'))"
proof (intro conjI impI)
  assume "eb = None"
  with worker_value_site_root_absolute[OF assms, of eb out_dir w]
  show "walk E (out_dir @ [''assets'']) eb (JStr v) w = (Inr (JStr v), w)" by simp
next
  assume a: "eb = Some (JStr external_base) \<and> external_base \<noteq> [] \<and>
      urljoin E (rstrip_chars ''/'' external_base @ ''/'') (lstrip_chars ''/'' raw) = Some abs_url \<and>
      safe_filename_from_url E abs_url = Some name \<and> name \<noteq> ''.'' \<and>
      download_binary E abs_url (out_dir @ [''assets'', ''wix-workers'', name]) w = (Inr d, w')"
  with safe_filename_plain have n: "name \<noteq> []" "CHR ''/'' \<notin> set name" by blast+
  from a have "path_div (out_dir @ [''assets'', ''wix-workers'']) name
                 = out_dir @ [''assets'', ''wix-workers'', name]"
    by (simp add: path_div_name[OF n])
  with a worker_value_site_root_absolute[OF assms, of eb out_dir w external_base abs_url name d w']
  show "walk E (out_dir @ [''assets'']) eb (JStr v) w
          = (Inr (JStr (''/assets/wix-workers/'' @ name)), w')"
    by simp
qed

lemma worker_value_site_root_absolute_example:
  "str_in ''clientWorker.'' worker_ref \<and>
   strip_fragment (serving ''JS'') worker_ref = Some worker_ref \<and>
   \<not> is_http_url (serving ''JS'') worker_ref \<and> startswith worker_ref ''/'' \<and>
   maybe_rewrite_value (serving ''JS'') [''site'', ''assets''] None worker_ref empty_world
     = (Inr worker_ref, empty_world) \<and>
   maybe_rewrite_value (serving ''JS'') [''site'', ''assets'']
       (Some (JStr ''https://cdn.example.com'')) worker_ref empty_world
     = (Inr ''/assets/wix-workers/clientWorker.abc123.bundle.min.js'',
        worker_world ''JS'' ''https://cdn.example.com/clientWorker.abc123.bundle.min.js'')"
proof -
  let ?E = "serving ''JS''"
  let ?u = "''https://cdn.example.com/clientWorker.abc123.bundle.min.js''"
  let ?n = "''clientWorker.abc123.bundle.min.js''"
  note r = worker_ref_relative[of ?E]
  have p: "path_div ([''site''] @ [''assets'', ''wix-workers'']) ?n
             = [''site'', ''assets'', ''wix-workers'', ?n]"
    by (simp add: path_div_def startswith_def)
  note T = worker_value_site_root_absolute[OF worker_ref_marked worker_ref_raw[of ?E]
      conjunct1[OF r] conjunct2[OF r], where out_dir = "[''site'']" and w = empty_world]
  from T[of None] have 1:
    "maybe_rewrite_value ?E [''site'', ''assets''] None worker_ref empty_world
       = (Inr worker_ref, empty_world)"
    by simp
  from T[of "Some (JStr ''https://cdn.example.com'')" "''https://cdn.example.com''" ?u ?n True
      "worker_world ''JS'' ?u"]
  have 2: "maybe_rewrite_value ?E [''site'', ''assets'']
       (Some (JStr ''https://cdn.example.com'')) worker_ref empty_world
     = (Inr ''/assets/wix-workers/clientWorker.abc123.bundle.min.js'', worker_world ''JS'' ?u)"
    unfolding p by (simp add: worker_ref_joined worker_ref_name worker_ref_download)
  show ?thesis using worker_ref_marked worker_ref_raw[of ?E] r 1 2 by simp
qed

lemma worker_value_dot_name:
  "str_in ''clientWorker.'' ''/#clientWorker.'' \<and>
   strip_fragment (serving ''JS'') ''/#clientWorker.'' = Some ''/'' \<and>
   \<not> is_http_url (serving ''JS'') ''/'' \<and>
   urljoin (serving ''JS'') (rstrip_chars ''/'' ''https://cdn.example.com/.#f'' @ ''/'')
       (lstrip_chars ''/'' ''/'') = Some ''https://cdn.example.com/.#f/'' \<and>
   safe_filename_from_url (serving ''JS'') ''https://cdn.example.com/.#f/'' = Some ''.'' \<and>
   download_binary (serving ''JS'') ''https://cdn.example.com/.#f/''
       (path_div (path_div [''site'', ''assets''] ''wix-workers'') ''.'') empty_world
     = (Inr True,
        \<lparr>fs = [''site'' \<mapsto> Dir [''assets'' \<mapsto> Dir [''wix-workers'' \<mapsto> File ''JS'']]],
           requests = [''https://cdn.example.com/.#f/'']\<rparr>) \<and>
   maybe_rewrite_value (serving ''JS'') [''site'', ''assets'']
       (Some (JStr ''https://cdn.example.com/.#f'')) ''/#clientWorker.'' empty_world
     = (Inr ''/assets/wix-workers'',
        \<lparr>fs = [''site'' \<mapsto> Dir [''assets'' \<mapsto> Dir [''wix-workers'' \<mapsto> File ''JS'']]],
           requests = [''https://cdn.example.com/.#f/'']\<rparr>)"
proof -
  let ?E = "serving ''JS''"
  let ?w = "\<lparr>fs = [''site'' \<mapsto> Dir [''assets'' \<mapsto> Dir [''wix-workers'' \<mapsto> File ''JS'']]],
           requests = [''https://cdn.example.com/.#f/'']\<rparr>"
  have m: "str_in ''clientWorker.'' ''/#clientWorker.''" by (simp add: startswith_def)
  have s: "strip_fragment ?E ''/#clientWorker.'' = Some ''/''" by (simp add: scrape_eval)
  have h: "\<not> is_http_url ?E ''/''" by (simp add: scrape_eval)
  have j: "urljoin ?E (rstrip_chars ''/'' ''https://cdn.example.com/.#f'' @ ''/'')
             (lstrip_chars ''/'' ''/'') = Some ''https://cdn.example.com/.#f/''"
    by (simp add: urljoin_def rstrip_chars_def lstrip_chars_def)
  have n: "safe_filename_from_url ?E ''https://cdn.example.com/.#f/'' = Some ''.''"
    by (simp add: name_eval url_eval)
  have p: "path_div (path_div [''site'', ''assets''] ''wix-workers'') ''.''
             = [''site'', ''assets'', ''wix-workers'']"
    by (simp add: path_div_def startswith_def)
  have d: "download_binary ?E ''https://cdn.example.com/.#f/''
             [''site'', ''assets'', ''wix-workers''] empty_world = (Inr True, ?w)"
    by (simp add: fs_eval serving_def empty_world_def)
  have r: "maybe_rewrite_value ?E [''site'', ''assets'']
       (Some (JStr ''https://cdn.example.com/.#f'')) ''/#clientWorker.'' empty_world
     = (Inr ''/assets/wix-workers'', ?w)"
    using m h by (simp add: maybe_rewrite_value_def s j n p d relative_to_posix_def startswith_def)
  show ?thesis using m s h j n d r unfolding p by simp
qed

text \<open>
  C6. The code diverges from the claim where \<^verbatim>\<open>_safe_filename_from_url\<close> gives the name
  \<^verbatim>\<open>.\<close>, which \<^verbatim>\<open>assets_dir / "wix-workers" / filename\<close> drops. On the model
  \<^verbatim>\<open>{"site":{"externalBaseUrl":"https://cdn.example.com/.#f"},"worker":"/#clientWorker."}\<close>
  the joined URL is \<^verbatim>\<open>https://cdn.example.com/.#f/\<close>, its name is \<^verbatim>\<open>.\<close>, the body is
  written to \<^verbatim>\<open>site/assets/wix-workers\<close> itself, as a file, and the value becomes
  \<^verbatim>\<open>/assets/wix-workers\<close> instead of \<^verbatim>\<open>/assets/wix-workers/.\<close>. After that the directory
  \<^verbatim>\<open>wix-workers\<close> cannot be made any more: on the model with the worker value
  \<^verbatim>\<open>/clientWorker.abc123.bundle.min.js\<close> the download raises, and the value is left as it
  was.
\<close>

theorem worker_dot_name_overwrites_directory:
  "safe_filename_from_url (serving ''JS'') ''https://cdn.example.com/.#f/'' = Some ''.'' \<and>
   walk_model (serving ''JS'') [''site'', ''assets''] dot_name_model empty_world
     = (Inr (JObj [(''site'', JObj [(''externalBaseUrl'', JStr ''https://cdn.example.com/.#f'')]),
                   (''worker'', JStr ''/assets/wix-workers'')]),
        stray_world ''JS'') \<and>
   walk_model (serving ''JS'') [''site'', ''assets''] viewer_model (stray_world ''JS'')
     = (Inr viewer_model, stray_world ''JS'')"
proof -
  let ?E = "serving ''JS''"
  have u: "maybe_rewrite_value E ad eb ''https://cdn.example.com/.#f'' w
             = (Inr ''https://cdn.example.com/.#f'', w)"
          "maybe_rewrite_value E ad eb ''https://cdn.example.com'' w
             = (Inr ''https://cdn.example.com'', w)"
          "maybe_rewrite_value E ad eb ''home'' w = (Inr ''home'', w)" for E ad eb w
    by (simp_all add: maybe_rewrite_unmarked startswith_def)
  have 1: "walk_model ?E [''site'', ''assets''] dot_name_model empty_world
     = (Inr (JObj [(''site'', JObj [(''externalBaseUrl'', JStr ''https://cdn.example.com/.#f'')]),
                   (''worker'', JStr ''/assets/wix-workers'')]),
        stray_world ''JS'')"
    using worker_value_dot_name
    by (simp add: walk_model_def dot_name_model_def external_base_of_def walk_top_member_def
        u stray_world_def)
  have p: "path_div (path_div [''site'', ''assets''] ''wix-workers'') ''clientWorker.abc123.bundle.min.js''
             = [''site'', ''assets'', ''wix-workers'', ''clientWorker.abc123.bundle.min.js'']"
    by (simp add: path_div_def startswith_def)
  have d: "download_binary ?E ''https://cdn.example.com/clientWorker.abc123.bundle.min.js''
             [''site'', ''assets'', ''wix-workers'', ''clientWorker.abc123.bundle.min.js'']
             (stray_world ''JS'')
           = (Inl FileExistsError, stray_world ''JS'')"
    by (simp add: fs_eval stray_world_def)
  have m: "maybe_rewrite_value ?E [''site'', ''assets''] (Some (JStr ''https://cdn.example.com''))
             worker_ref (stray_world ''JS'') = (Inr worker_ref, stray_world ''JS'')"
    using worker_ref_marked worker_ref_relative[of ?E]
    by (simp add: maybe_rewrite_value_def worker_ref_raw worker_ref_joined worker_ref_name p d)
  have 2: "walk_model ?E [''site'', ''assets''] viewer_model (stray_world ''JS'')
     = (Inr viewer_model, stray_world ''JS'')"
    by (simp add: walk_model_def viewer_model_def external_base_of_def walk_top_member_def u m)
  show ?thesis using worker_value_dot_name 1 2 by simp
qed

end
